theory Spec2Isabelle
  imports Main "HOL-Library.AList"
begin

section \<open>Strings and errors\<close>

text \<open>
  A Go string is a sequence of bytes and is modelled by \<^typ>\<open>string\<close>. The package only
  ever searches for, cuts at and replaces the one-byte separators \<^verbatim>\<open>"/"\<close>, \<^verbatim>\<open>","\<close> and
  \<^verbatim>\<open>"."\<close>, so the functions of Go's \<^verbatim>\<open>strings\<close> package take the separator as a
  \<^typ>\<open>char\<close>.

  An \<^verbatim>\<open>error\<close> value is modelled by its message (\<^verbatim>\<open>fmt.Errorf("ctx: %w", err)\<close> yields
  the message of \<^verbatim>\<open>err\<close> behind the prefix); a run-time panic is a separate outcome that no
  caller in the package recovers from, so it travels outwards unchanged.
\<close>

datatype error = Error string | Panic string

text \<open>\<^verbatim>\<open>fmt.Errorf(prefix + "%w", err)\<close>; a panic is not an error value and is never wrapped.\<close>

fun Errorf :: "string \<Rightarrow> error \<Rightarrow> error" where
  "Errorf prefix (Error msg) = Error (prefix @ msg)"
| "Errorf prefix (Panic msg) = Panic msg"

text \<open>\<^verbatim>\<open>strings.LastIndex(s, sep)\<close>: the index of the last occurrence, or \<open>-1\<close>.\<close>

fun LastIndex :: "string \<Rightarrow> char \<Rightarrow> int" where
  "LastIndex [] c = -1"
| "LastIndex (x # xs) c =
     (let r = LastIndex xs c in
      if 0 \<le> r then r + 1 else if x = c then 0 else -1)"

definition ReplaceAll :: "string \<Rightarrow> char \<Rightarrow> char \<Rightarrow> string" where
  "ReplaceAll s old new = map (\<lambda>x. if x = old then new else x) s"

definition HasPrefix :: "string \<Rightarrow> string \<Rightarrow> bool" where
  "HasPrefix s p = (take (length p) s = p)"

definition TrimPrefix :: "string \<Rightarrow> string \<Rightarrow> string" where
  "TrimPrefix s p = (if HasPrefix s p then drop (length p) s else s)"

text \<open>\<^verbatim>\<open>strings.Cut(s, sep)\<close> returns \<open>(before, after, found)\<close>.\<close>

definition Cut :: "string \<Rightarrow> char \<Rightarrow> string \<times> string \<times> bool" where
  "Cut s sep =
     (if sep \<in> set s
      then (takeWhile (\<lambda>x. x \<noteq> sep) s, tl (dropWhile (\<lambda>x. x \<noteq> sep) s), True)
      else (s, [], False))"

section \<open>Type descriptors\<close>

text \<open>
  A \<^verbatim>\<open>reflect.Type\<close> is modelled by the finite tree of the types it is built from. Every
  type carries what \<^verbatim>\<open>PkgPath()\<close>, \<^verbatim>\<open>Name()\<close> (the field \<open>TypeName\<close>) and \<^verbatim>\<open>String()\<close>
  return and the interfaces
  the package asks \<^verbatim>\<open>Implements\<close> about. The package distinguishes the kinds
  \<^verbatim>\<open>reflect.Pointer\<close>, \<^verbatim>\<open>reflect.Slice\<close> and \<^verbatim>\<open>reflect.Struct\<close>, and a type assertion
  of the package depends on whether a type is an interface; all other kinds behave
  alike and share the constructor \<open>OtherType\<close>. A named type keeps the kind of its
  underlying type (\<^verbatim>\<open>type Names []string\<close> has kind Slice and the name \<^verbatim>\<open>Names\<close>).
  Types that contain themselves (\<^verbatim>\<open>type P *P\<close>), on which the recursive functions of
  the package do not return, are not values of this datatype.
\<close>

datatype iface = context_Context | error_interface | SchemaProvider

record rtype =
  PkgPath :: string
  TypeName :: string
  String :: string
  implements :: "iface list"

datatype kind = reflect_Pointer | reflect_Slice | reflect_Struct | reflect_Interface | reflect_other

datatype go_type =
    PointerType rtype go_type
  | SliceType rtype go_type
  | StructType rtype "struct_field list"
  | InterfaceType rtype
  | OtherType rtype
and struct_field =
    StructField (FieldName: string) (FieldPkgPath: string) (Anonymous: bool)
      (Tag: "(string \<times> string) list") (FieldType: go_type)

fun Kind :: "go_type \<Rightarrow> kind" where
  "Kind (PointerType h e) = reflect_Pointer"
| "Kind (SliceType h e) = reflect_Slice"
| "Kind (StructType h fs) = reflect_Struct"
| "Kind (InterfaceType h) = reflect_Interface"
| "Kind (OtherType h) = reflect_other"

fun hdr :: "go_type \<Rightarrow> rtype" where
  "hdr (PointerType h e) = h"
| "hdr (SliceType h e) = h"
| "hdr (StructType h fs) = h"
| "hdr (InterfaceType h) = h"
| "hdr (OtherType h) = h"

definition Implements :: "go_type \<Rightarrow> iface \<Rightarrow> bool" where
  "Implements t u = (u \<in> set (implements (hdr t)))"

text \<open>\<^verbatim>\<open>f.Tag.Get(key)\<close>: the value of the key in the field's tag, or the empty string.\<close>

definition Get :: "(string \<times> string) list \<Rightarrow> string \<Rightarrow> string" where
  "Get tag key = (case map_of tag key of Some v \<Rightarrow> v | None \<Rightarrow> [])"

text \<open>\<^verbatim>\<open>reflect.StructField.IsExported\<close>: the field's \<^verbatim>\<open>PkgPath\<close> is empty.\<close>

definition IsExported :: "struct_field \<Rightarrow> bool" where
  "IsExported f = (FieldPkgPath f = [])"

section \<open>Identifier naming\<close>

text \<open>
  \<^verbatim>\<open>DefaultSchemaIdentifier\<close>: a slice is named after its element with the suffix
  \<^verbatim>\<open>List\<close>, a pointer after its element; any other type by its package path, with
  \<^verbatim>\<open>/\<close> replaced by \<^verbatim>\<open>.\<close>, and its name.
\<close>

fun DefaultSchemaIdentifier :: "go_type \<Rightarrow> string" where
  "DefaultSchemaIdentifier (SliceType h e) = DefaultSchemaIdentifier e @ ''List''"
| "DefaultSchemaIdentifier (PointerType h e) = DefaultSchemaIdentifier e"
| "DefaultSchemaIdentifier t =
     (if PkgPath (hdr t) \<noteq> [] then ReplaceAll (PkgPath (hdr t)) CHR ''/'' CHR ''.'' @ ''.''
      else []) @ TypeName (hdr t)"

fun ShortSchemaIdentifier :: "go_type \<Rightarrow> string" where
  "ShortSchemaIdentifier (SliceType h e) = ShortSchemaIdentifier e @ ''List''"
| "ShortSchemaIdentifier (PointerType h e) = ShortSchemaIdentifier e"
| "ShortSchemaIdentifier t = String (hdr t)"

section \<open>Required properties\<close>

text \<open>
  \<^verbatim>\<open>getRequiredProps\<close>. The loop over the fields appends to \<^verbatim>\<open>props\<close> in field order;
  \<open>fieldsRequired\<close> is that loop, returning what it appends. \<open>namedFieldProps\<close> is the
  loop body for a field that is not embedded: it appends one name or, where the body
  says \<^verbatim>\<open>continue\<close>, nothing.
\<close>

definition namedFieldProps :: "string \<Rightarrow> (string \<times> string) list \<Rightarrow> string list" where
  "namedFieldProps fname tag =
     (let jsonTag = Get tag ''json'' in
      if jsonTag = [] then [fname]
      else
        let (alias, option, found) = Cut jsonTag CHR '','' in
        if option = ''omitempty'' then []
        else
          let name = (if found then alias else jsonTag);
              name = (if name = [] then fname else name)
          in if name = ''-'' then [] else [name])"

fun getRequiredProps :: "go_type \<Rightarrow> string list"
  and fieldsRequired :: "struct_field list \<Rightarrow> string list" where
  "getRequiredProps (PointerType h e) = getRequiredProps e"
| "getRequiredProps (StructType h fs) = fieldsRequired fs"
| "getRequiredProps (SliceType h e) = []"
| "getRequiredProps (InterfaceType h) = []"
| "getRequiredProps (OtherType h) = []"
| "fieldsRequired [] = []"
| "fieldsRequired (StructField fname pkg anonymous tag ftype # fs) =
     (if anonymous then getRequiredProps ftype else namedFieldProps fname tag)
     @ fieldsRequired fs"

subsection \<open>The analysis as the specification words it\<close>

text \<open>
  The json annotation of a field is \<^verbatim>\<open>name,flag,flag...\<close>. \<open>annotation_name\<close> is the part
  before the first comma, \<open>annotation_flags\<close> the comma-separated flags behind it.
\<close>

fun split_at :: "char \<Rightarrow> string \<Rightarrow> string list" where
  "split_at c [] = [[]]"
| "split_at c (x # xs) =
     (if x = c then [] # split_at c xs
      else (case split_at c xs of w # ws \<Rightarrow> (x # w) # ws | [] \<Rightarrow> [[x]]))"

definition annotation_name :: "string \<Rightarrow> string" where
  "annotation_name j = takeWhile (\<lambda>x. x \<noteq> CHR '','') j"

definition annotation_flags :: "string \<Rightarrow> string list" where
  "annotation_flags j =
     (if CHR '','' \<in> set j then split_at CHR '','' (tl (dropWhile (\<lambda>x. x \<noteq> CHR '','') j))
      else [])"

definition annotation_rest :: "string \<Rightarrow> string" where
  "annotation_rest j =
     (if CHR '','' \<in> set j then tl (dropWhile (\<lambda>x. x \<noteq> CHR '','') j) else [])"

text \<open>
  \<open>Required_spec\<close> follows the rules of the specification in their order: an embedded field
  contributes the analysis of its type; a field without annotation is required under
  its declared name; a field renamed to \<^verbatim>\<open>-\<close> is excluded; a field that carries the
  flag \<^verbatim>\<open>omitempty\<close> is excluded; any other field is required under its annotation
  name, or under its declared name when the annotation names nothing. A pointer is
  analysed as the type it points to, and every other type yields the empty set.
\<close>

fun Required_spec :: "go_type \<Rightarrow> string set"
  and Required_fields_spec :: "struct_field list \<Rightarrow> string set" where
  "Required_spec (PointerType h e) = Required_spec e"
| "Required_spec (StructType h fs) = Required_fields_spec fs"
| "Required_spec (SliceType h e) = {}"
| "Required_spec (InterfaceType h) = {}"
| "Required_spec (OtherType h) = {}"
| "Required_fields_spec [] = {}"
| "Required_fields_spec (StructField fname pkg anonymous tag ftype # fs) =
     (if anonymous then Required_spec ftype
      else if Get tag ''json'' = [] then {fname}
      else if annotation_name (Get tag ''json'') = ''-'' then {}
      else if ''omitempty'' \<in> set (annotation_flags (Get tag ''json'')) then {}
      else if annotation_name (Get tag ''json'') = [] then {fname}
      else {annotation_name (Get tag ''json'')})
     \<union> Required_fields_spec fs"

text \<open>
  \<open>plain_flags\<close>: on every field the analysis reaches, the declared name is not the
  sentinel \<^verbatim>\<open>-\<close> (no Go identifier is), and \<^verbatim>\<open>omitempty\<close>, where it is a flag of the
  annotation, is its only flag.
\<close>

fun plain_flags :: "go_type \<Rightarrow> bool"
  and plain_fields :: "struct_field list \<Rightarrow> bool" where
  "plain_flags (PointerType h e) = plain_flags e"
| "plain_flags (StructType h fs) = plain_fields fs"
| "plain_flags (SliceType h e) = True"
| "plain_flags (InterfaceType h) = True"
| "plain_flags (OtherType h) = True"
| "plain_fields [] = True"
| "plain_fields (StructField fname pkg anonymous tag ftype # fs) =
     ((if anonymous then plain_flags ftype
       else fname \<noteq> ''-'' \<and>
         (if ''omitempty'' \<in> set (annotation_flags (Get tag ''json''))
          then annotation_flags (Get tag ''json'') = [''omitempty''] else True))
      \<and> plain_fields fs)"

subsection \<open>Types of the package's tests\<close>

definition builtin :: "string \<Rightarrow> go_type" where
  "builtin n = OtherType \<lparr>PkgPath = [], TypeName = n, String = n, implements = []\<rparr>"

definition named_struct :: "string \<Rightarrow> struct_field list \<Rightarrow> go_type" where
  "named_struct n fs =
     StructType \<lparr>PkgPath = ''github.com/pbedat/expose'', TypeName = n,
       String = ''expose.'' @ n, implements = []\<rparr> fs"

definition PointerTo :: "go_type \<Rightarrow> go_type" where
  "PointerTo t =
     PointerType \<lparr>PkgPath = [], TypeName = [], String = ''*'' @ String (hdr t), implements = []\<rparr> t"

definition SliceOf :: "go_type \<Rightarrow> go_type" where
  "SliceOf t =
     SliceType \<lparr>PkgPath = [], TypeName = [], String = ''[]'' @ String (hdr t), implements = []\<rparr> t"

definition field :: "string \<Rightarrow> (string \<times> string) list \<Rightarrow> go_type \<Rightarrow> struct_field" where
  "field n tag t = StructField n [] False tag t"

text \<open>
  An anonymous struct with a renamed field, an \<^verbatim>\<open>omitempty\<close> field, a field without
  annotation, an ignored field and an embedded pointer to \<open>dup\<close>; and one whose only
  field carries \<^verbatim>\<open>omitempty\<close> next to a second flag.
\<close>

definition anonymous_struct :: "struct_field list \<Rightarrow> go_type" where
  "anonymous_struct fs =
     StructType \<lparr>PkgPath = [], TypeName = [], String = ''struct {...}'', implements = []\<rparr> fs"

definition dup :: go_type where
  "dup = named_struct ''dup'' [field ''Foo'' [] (builtin ''string'')]"

definition dedup1 :: go_type where
  "dedup1 = named_struct ''dedup1'' [field ''Dup1'' [] dup]"

definition dedup2 :: go_type where
  "dedup2 = named_struct ''dedup2'' [field ''Dup2'' [] dup]"

definition with_tags :: go_type where
  "with_tags = anonymous_struct
     [field ''Foo'' [(''json'', ''foo'')] (builtin ''string''),
      field ''Bar'' [(''json'', ''bar,omitempty'')] (builtin ''string''),
      field ''Baz'' [] (builtin ''string''),
      field ''Skip'' [(''json'', ''-'')] (builtin ''string''),
      StructField ''dup'' ''github.com/pbedat/expose'' True [] (PointerTo dup)]"

definition two_flags :: go_type where
  "two_flags = anonymous_struct
     [field ''ID'' [(''json'', ''id,omitempty,string'')] (builtin ''int'')]"

section \<open>Exposed functions\<close>

text \<open>
  The two implementations of the interface \<^verbatim>\<open>Function\<close>. The wrapped Go function is not
  part of the model; the type parameters \<^verbatim>\<open>TReq\<close> and \<^verbatim>\<open>TRes\<close> of
  \<^verbatim>\<open>functionDefinition\<close> are fields. A \<^verbatim>\<open>reflect.Method\<close> together with the type of the
  bound method value is a \<open>go_method\<close>: \<open>In\<close> and \<open>Out\<close> list the parameter and result
  types without the receiver.
\<close>

record functionSettings =
  validate :: bool

type_synonym FuncOpt = "functionSettings \<Rightarrow> functionSettings"

definition Validate :: "bool \<Rightarrow> FuncOpt" where
  "Validate v s = s\<lparr>validate := v\<rparr>"

definition newSettings :: "FuncOpt list \<Rightarrow> functionSettings" where
  "newSettings opts = fold (\<lambda>opt s. opt s) opts \<lparr>validate = False\<rparr>"

record go_method =
  MethodName :: string
  MethodPkgPath :: string
  In :: "go_type list"
  Out :: "go_type list"

datatype Function =
    functionDefinition string string go_type go_type functionSettings
  | structFunctionDefinition string string go_method "go_type option" "go_type option"
      bool bool functionSettings

definition Void :: go_type where
  "Void = named_struct ''Void'' []"

text \<open>
  \<^verbatim>\<open>n := mountpoint[strings.LastIndex(mountpoint, "/")+1:]\<close>: the lower bound lies
  between 0 and the length, so the slice expression never panics.
\<close>

definition Func :: "go_type \<Rightarrow> go_type \<Rightarrow> string \<Rightarrow> FuncOpt list \<Rightarrow> Function" where
  "Func TReq TRes mountpoint opts =
     (let n = drop (nat (LastIndex mountpoint CHR ''/'' + 1)) mountpoint
      in functionDefinition n mountpoint TReq TRes (newSettings opts))"

definition FuncVoid :: "go_type \<Rightarrow> string \<Rightarrow> FuncOpt list \<Rightarrow> Function" where
  "FuncVoid TReq mountpoint opts =
     (let n = drop (nat (LastIndex mountpoint CHR ''/'' + 1)) mountpoint
      in functionDefinition n mountpoint TReq Void (newSettings opts))"

definition FuncNullary :: "go_type \<Rightarrow> string \<Rightarrow> FuncOpt list \<Rightarrow> Function" where
  "FuncNullary TRes mountpoint opts =
     (let n = drop (nat (LastIndex mountpoint CHR ''/'' + 1)) mountpoint
      in functionDefinition n mountpoint Void TRes (newSettings opts))"

definition FuncNullaryVoid :: "string \<Rightarrow> FuncOpt list \<Rightarrow> Function" where
  "FuncNullaryVoid mountpoint opts =
     (let n = drop (nat (LastIndex mountpoint CHR ''/'' + 1)) mountpoint
      in functionDefinition n mountpoint Void Void (newSettings opts))"

fun Name :: "Function \<Rightarrow> string" where
  "Name (functionDefinition name path treq tres settings) = name"
| "Name (structFunctionDefinition name path m reqType resType isNullary isVoid settings) = name"

fun Path :: "Function \<Rightarrow> string" where
  "Path (functionDefinition name path treq tres settings) = path"
| "Path (structFunctionDefinition name path m reqType resType isNullary isVoid settings) = path"

text \<open>
  \<^verbatim>\<open>Module\<close>, the same body in both implementations. \<^verbatim>\<open>def.path[:i]\<close> panics when
  \<^verbatim>\<open>i\<close> is \<open>-1\<close>.
\<close>

definition modulePath :: "string \<Rightarrow> error + string" where
  "modulePath path =
     (let i = LastIndex path CHR ''/'' in
      if i < 0 then Inl (Panic ''runtime error: slice bounds out of range [:-1]'')
      else Inr (TrimPrefix (ReplaceAll (take (nat i) path) CHR ''/'' CHR ''.'') ''.''))"

fun Module :: "Function \<Rightarrow> error + string" where
  "Module (functionDefinition name path treq tres settings) = modulePath path"
| "Module (structFunctionDefinition name path m reqType resType isNullary isVoid settings) =
     modulePath path"

text \<open>
  \<^verbatim>\<open>Req\<close> and \<^verbatim>\<open>Res\<close> return the zero value of the request and result type. A value is
  represented by its dynamic type; request and result types are taken to be concrete
  types, whose zero value is not the nil interface.
\<close>

fun Req :: "Function \<Rightarrow> go_type" where
  "Req (functionDefinition name path treq tres settings) = treq"
| "Req (structFunctionDefinition name path m reqType resType isNullary isVoid settings) =
     (case reqType of None \<Rightarrow> Void | Some t \<Rightarrow> if isNullary then Void else t)"

fun Res :: "Function \<Rightarrow> go_type" where
  "Res (functionDefinition name path treq tres settings) = tres"
| "Res (structFunctionDefinition name path m reqType resType isNullary isVoid settings) =
     (case resType of None \<Rightarrow> Void | Some t \<Rightarrow> if isVoid then Void else t)"

text \<open>
  The module as the specification words it: the path truncated at its last \<^verbatim>\<open>/\<close>,
  every \<^verbatim>\<open>/\<close> replaced by \<^verbatim>\<open>.\<close>, one leading \<^verbatim>\<open>.\<close> removed.
\<close>

definition before_last_slash :: "string \<Rightarrow> string" where
  "before_last_slash p = rev (tl (dropWhile (\<lambda>x. x \<noteq> CHR ''/'') (rev p)))"

definition dotted :: "string \<Rightarrow> string" where
  "dotted s = map (\<lambda>x. if x = CHR ''/'' then CHR ''.'' else x) s"

definition without_leading_dot :: "string \<Rightarrow> string" where
  "without_leading_dot s = (if s \<noteq> [] \<and> hd s = CHR ''.'' then tl s else s)"

definition module_of_path :: "string \<Rightarrow> string" where
  "module_of_path p = without_leading_dot (dotted (before_last_slash p))"

section \<open>Schema trees\<close>

text \<open>
  \<^verbatim>\<open>openapi3.SchemaRef\<close> and \<^verbatim>\<open>openapi3.Schema\<close>, with the fields of a schema that the
  package reads or writes. A schema tree is modelled as a tree: the \<^verbatim>\<open>*SchemaRef\<close>
  pointers of a schema are its children, no child is the nil pointer and no node is
  shared between two places. \<^verbatim>\<open>Extensions\<close> and \<^verbatim>\<open>Properties\<close> are Go maps; they are
  association lists here, and the order of \<open>Properties\<close> is the order in which a run
  iterates over the map. A value of an extension is a string or anything else.
\<close>

datatype ext = ExtString string | ExtOther

datatype SchemaRef = SchemaRef (Ref: string) (Value: "Schema option")
and Schema = Schema (Extensions: "(string \<times> ext) list") (AllOf: "SchemaRef list")
  (AnyOf: "SchemaRef list") (OneOf: "SchemaRef list") (Items: "SchemaRef option")
  (Properties: "(string \<times> SchemaRef) list") (Required: "string list")

definition NewSchemaRef :: "string \<Rightarrow> Schema option \<Rightarrow> SchemaRef" where
  "NewSchemaRef ref v = SchemaRef ref v"

text \<open>
  A visitor returns the replacement (or nil) and an error; what else it does is a
  change of a state of type \<open>'st\<close>.
\<close>

type_synonym 'st visitorFn = "SchemaRef \<Rightarrow> 'st \<Rightarrow> (error + SchemaRef option) \<times> 'st"

text \<open>
  \<^verbatim>\<open>walkSchema\<close> changes the tree in place and returns an error. The model returns the
  error, the tree as the walk leaves it and the visitor's state. \<open>walkRefs\<close> is the loop
  over \<^verbatim>\<open>s.AllOf\<close>, \<^verbatim>\<open>s.AnyOf\<close> and \<^verbatim>\<open>s.OneOf\<close>: the three loops of the source have the
  same body, with the same format string \<^verbatim>\<open>"allOf: %w"\<close>. \<open>walkProps\<close> is the loop over
  \<^verbatim>\<open>s.Properties\<close>.
\<close>

fun walkSchema :: "'st visitorFn \<Rightarrow> SchemaRef \<Rightarrow> 'st \<Rightarrow> error option \<times> SchemaRef \<times> 'st"
  and walkRefs ::
    "string \<Rightarrow> 'st visitorFn \<Rightarrow> SchemaRef list \<Rightarrow> 'st \<Rightarrow> error option \<times> SchemaRef list \<times> 'st"
  and walkProps ::
    "'st visitorFn \<Rightarrow> (string \<times> SchemaRef) list \<Rightarrow> 'st
      \<Rightarrow> error option \<times> (string \<times> SchemaRef) list \<times> 'st"
where
  "walkSchema visitor (SchemaRef r None) st = (None, SchemaRef r None, st)"
| "walkSchema visitor (SchemaRef r (Some (Schema exts allOf anyOf oneOf items props req))) st =
     (case walkRefs ''allOf: '' visitor allOf st of
        (Some err, allOf', st) \<Rightarrow>
          (Some err, SchemaRef r (Some (Schema exts allOf' anyOf oneOf items props req)), st)
      | (None, allOf', st) \<Rightarrow>
     (case walkRefs ''allOf: '' visitor anyOf st of
        (Some err, anyOf', st) \<Rightarrow>
          (Some err, SchemaRef r (Some (Schema exts allOf' anyOf' oneOf items props req)), st)
      | (None, anyOf', st) \<Rightarrow>
     (case walkRefs ''allOf: '' visitor oneOf st of
        (Some err, oneOf', st) \<Rightarrow>
          (Some err, SchemaRef r (Some (Schema exts allOf' anyOf' oneOf' items props req)), st)
      | (None, oneOf', st) \<Rightarrow>
     (case (case items of
              None \<Rightarrow> (None, None, st)
            | Some i \<Rightarrow>
                (case walkSchema visitor i st of
                   (Some err, i', st) \<Rightarrow> (Some (Errorf ''items: '' err), Some i', st)
                 | (None, i', st) \<Rightarrow> (None, Some i', st))) of
        (Some err, items', st) \<Rightarrow>
          (Some err, SchemaRef r (Some (Schema exts allOf' anyOf' oneOf' items' props req)), st)
      | (None, items', st) \<Rightarrow>
     (case walkProps visitor props st of
        (Some err, props', st) \<Rightarrow>
          (Some err, SchemaRef r (Some (Schema exts allOf' anyOf' oneOf' items' props' req)), st)
      | (None, props', st) \<Rightarrow>
     (let ref = SchemaRef r (Some (Schema exts allOf' anyOf' oneOf' items' props' req)) in
      case visitor ref st of
        (Inl err, st) \<Rightarrow> (Some err, ref, st)
      | (Inr None, st) \<Rightarrow> (None, ref, st)
      | (Inr (Some replacedRef), st) \<Rightarrow> (None, replacedRef, st)))))))"
| "walkRefs prefix visitor [] st = (None, [], st)"
| "walkRefs prefix visitor (ref # refs) st =
     (if Value ref \<noteq> None then
        (case walkSchema visitor ref st of
           (Some err, ref', st) \<Rightarrow> (Some (Errorf prefix err), ref' # refs, st)
         | (None, ref', st) \<Rightarrow>
             (case walkRefs prefix visitor refs st of
                (err, refs', st) \<Rightarrow> (err, ref' # refs', st)))
      else (case walkRefs prefix visitor refs st of (err, refs', st) \<Rightarrow> (err, ref # refs', st)))"
| "walkProps visitor [] st = (None, [], st)"
| "walkProps visitor ((k, p) # props) st =
     (if Value p \<noteq> None then
        (case walkSchema visitor p st of
           (Some err, p', st) \<Rightarrow>
             (Some (Errorf (''prop '' @ k @ '': '') err), (k, p') # props, st)
         | (None, p', st) \<Rightarrow>
             (case walkProps visitor props st of
                (err, props', st) \<Rightarrow> (err, (k, p') # props', st)))
      else (case walkProps visitor props st of
              (err, props', st) \<Rightarrow> (err, (k, p) # props', st)))"

text \<open>
  \<^verbatim>\<open>extractSubSchemas\<close>. The visitor's state is the table \<^verbatim>\<open>schemas\<close>. The type
  assertion \<^verbatim>\<open>idAny.(string)\<close> panics on a value that is not a string.
  \<^verbatim>\<open>schemas[id] = &ref\<close> stores a copy of the visited \<^verbatim>\<open>SchemaRef\<close>, which shares its
  schema with the visited node; the walk has finished with that schema when the visitor
  is called, so the entry is the node as the visitor sees it.
\<close>

type_synonym Schemas = "string \<rightharpoonup> SchemaRef"

definition extractSubSchemas :: "Schemas visitorFn" where
  "extractSubSchemas ref schemas =
     (case Value ref of
        None \<Rightarrow> (Inr None, schemas)
      | Some s \<Rightarrow>
          (case map_of (Extensions s) ''$id'' of
             None \<Rightarrow> (Inr None, schemas)
           | Some ExtOther \<Rightarrow>
               (Inl (Panic ''interface conversion: interface {} is not string''), schemas)
           | Some (ExtString idAny) \<Rightarrow>
               (let id = TrimPrefix idAny ''#'' in
                if schemas id \<noteq> None
                then (Inr (Some (NewSchemaRef (''#/components/schemas/'' @ id) None)), schemas)
                else (Inr (Some (NewSchemaRef (''#/components/schemas/'' @ id) None)),
                      schemas(id \<mapsto> ref)))))"

section \<open>Properties of identifier naming\<close>

text \<open>
  C6. Both naming strategies are functions of the type descriptor alone, so equal types
  have equal identifiers; a pointer type, named or not, has the identifier of the type
  it points to; a slice type has the identifier of its element type followed by
  \<^verbatim>\<open>List\<close>.
\<close>

theorem identifier_deterministic_pointer_transparent:
  "(\<forall>t t'. t = t' \<longrightarrow>
      DefaultSchemaIdentifier t = DefaultSchemaIdentifier t' \<and>
      ShortSchemaIdentifier t = ShortSchemaIdentifier t') \<and>
   DefaultSchemaIdentifier (PointerType h t) = DefaultSchemaIdentifier t \<and>
   ShortSchemaIdentifier (PointerType h t) = ShortSchemaIdentifier t \<and>
   DefaultSchemaIdentifier (SliceType h t) = DefaultSchemaIdentifier t @ ''List'' \<and>
   ShortSchemaIdentifier (SliceType h t) = ShortSchemaIdentifier t @ ''List''"
  by simp

theorem identifier_deterministic_pointer_transparent_witness:
  "DefaultSchemaIdentifier (PointerTo dup) = ''github.com.pbedat.expose.dup'' \<and>
   DefaultSchemaIdentifier dup = ''github.com.pbedat.expose.dup'' \<and>
   ShortSchemaIdentifier (PointerTo dup) = ''expose.dup'' \<and>
   ShortSchemaIdentifier (SliceOf (PointerTo dup)) = ''expose.dupList''"
proof -
  have d: "DefaultSchemaIdentifier dup = ''github.com.pbedat.expose.dup''"
    and s: "ShortSchemaIdentifier dup = ''expose.dup''"
    by (simp_all add: dup_def named_struct_def ReplaceAll_def)
  from identifier_deterministic_pointer_transparent [of "hdr (PointerTo dup)" dup]
  have p: "DefaultSchemaIdentifier (PointerTo dup) = DefaultSchemaIdentifier dup"
    "ShortSchemaIdentifier (PointerTo dup) = ShortSchemaIdentifier dup"
    unfolding PointerTo_def by simp_all
  from identifier_deterministic_pointer_transparent
    [of "hdr (SliceOf (PointerTo dup))" "PointerTo dup"]
  have l: "ShortSchemaIdentifier (SliceOf (PointerTo dup)) =
      ShortSchemaIdentifier (PointerTo dup) @ ''List''"
    unfolding SliceOf_def by simp
  show ?thesis using d s p l by simp
qed

section \<open>Properties of the required-field analysis\<close>

lemma takeWhile_absent: "c \<notin> set j \<Longrightarrow> takeWhile (\<lambda>x. x \<noteq> c) j = j"
  by (induction j) auto

lemma Cut_comma: "Cut j CHR '','' = (annotation_name j, annotation_rest j, CHR '','' \<in> set j)"
  by (simp add: Cut_def annotation_name_def annotation_rest_def takeWhile_absent)

lemma split_at_nonempty: "split_at c s \<noteq> []"
  by (induction s) (auto split: list.splits)

lemma split_at_single: "split_at c s = [w] \<longleftrightarrow> (s = w \<and> c \<notin> set w)"
proof (induction s arbitrary: w)
  case Nil
  show ?case by auto
next
  case (Cons x xs)
  obtain v vs where sp: "split_at c xs = v # vs"
    using split_at_nonempty [of c xs] by (cases "split_at c xs") auto
  show ?case
  proof (cases "x = c")
    case True
    then show ?thesis using sp by auto
  next
    case False
    have eq: "split_at c (x # xs) = (x # v) # vs" using False sp by simp
    have 1: "(vs = []) = (xs = v \<and> c \<notin> set v)" using Cons.IH [of v] sp by simp
    have 2: "(v = xs \<and> vs = []) = (c \<notin> set xs)" using Cons.IH [of xs] sp by simp
    show ?thesis unfolding eq using False 1 2 by auto
  qed
qed

text \<open>The loop body with the result of \<^verbatim>\<open>strings.Cut\<close> named by its parts.\<close>

lemma namedFieldProps_alt:
  "namedFieldProps fname tag =
     (if Get tag ''json'' = [] then [fname]
      else if annotation_rest (Get tag ''json'') = ''omitempty'' then []
      else if annotation_name (Get tag ''json'') = [] then (if fname = ''-'' then [] else [fname])
      else if annotation_name (Get tag ''json'') = ''-'' then []
      else [annotation_name (Get tag ''json'')])"
proof -
  have "CHR '','' \<notin> set j \<Longrightarrow> annotation_name j = j" for j
    by (simp add: annotation_name_def takeWhile_absent)
  then show ?thesis
    by (simp add: namedFieldProps_def Let_def Cut_comma)
qed

text \<open>
  The code compares everything behind the first comma with \<^verbatim>\<open>omitempty\<close>; that is the
  presence of the flag exactly when the flag stands alone.
\<close>

lemma omitempty_flag:
  assumes "if ''omitempty'' \<in> set (annotation_flags j)
           then annotation_flags j = [''omitempty''] else True"
  shows "(''omitempty'' \<in> set (annotation_flags j)) = (annotation_rest j = ''omitempty'')"
proof (cases "CHR '','' \<in> set j")
  case True
  have f: "annotation_flags j = split_at CHR '','' (annotation_rest j)"
    using True by (simp add: annotation_flags_def annotation_rest_def)
  show ?thesis
  proof
    assume "''omitempty'' \<in> set (annotation_flags j)"
    with assms have "annotation_flags j = [''omitempty'']" by simp
    with f have "split_at CHR '','' (annotation_rest j) = [''omitempty'']" by simp
    then show "annotation_rest j = ''omitempty''" by (simp add: split_at_single)
  next
    assume "annotation_rest j = ''omitempty''"
    then have "split_at CHR '','' (annotation_rest j) = [''omitempty'']"
      by (simp add: split_at_single)
    with f show "''omitempty'' \<in> set (annotation_flags j)" by simp
  qed
next
  case False
  then show ?thesis by (simp add: annotation_rest_def annotation_flags_def)
qed

lemma namedFieldProps_spec:
  assumes "fname \<noteq> ''-''"
    and "if ''omitempty'' \<in> set (annotation_flags (Get tag ''json''))
         then annotation_flags (Get tag ''json'') = [''omitempty''] else True"
  shows "set (namedFieldProps fname tag) =
     (if Get tag ''json'' = [] then {fname}
      else if annotation_name (Get tag ''json'') = ''-'' then {}
      else if ''omitempty'' \<in> set (annotation_flags (Get tag ''json'')) then {}
      else if annotation_name (Get tag ''json'') = [] then {fname}
      else {annotation_name (Get tag ''json'')})"
  unfolding omitempty_flag [OF assms(2)] namedFieldProps_alt
  using assms(1) by simp

lemma required_refines:
  "plain_flags t \<Longrightarrow> set (getRequiredProps t) = Required_spec t"
  "plain_fields fs \<Longrightarrow> set (fieldsRequired fs) = Required_fields_spec fs"
proof (induction t and fs rule: getRequiredProps_fieldsRequired.induct)
  case (7 fname pkg anonymous tag ftype fs)
  show ?case
  proof (cases anonymous)
    case True
    with "7.prems" have "plain_flags ftype" and "plain_fields fs" by simp_all
    with "7.IH" True have "set (getRequiredProps ftype) = Required_spec ftype"
      and "set (fieldsRequired fs) = Required_fields_spec fs" by blast+
    with True show ?thesis by simp
  next
    case False
    with "7.prems" have a: "fname \<noteq> ''-''"
      and b: "if ''omitempty'' \<in> set (annotation_flags (Get tag ''json''))
         then annotation_flags (Get tag ''json'') = [''omitempty''] else True"
      and c: "plain_fields fs" by simp_all
    from "7.IH"(2) c have "set (fieldsRequired fs) = Required_fields_spec fs" .
    with False show ?thesis
      by (simp only: fieldsRequired.simps Required_fields_spec.simps set_append
          namedFieldProps_spec [OF a b] if_False)
  qed
qed simp_all

text \<open>
  C5, as stated, fails: a pointer to a struct is not a struct type, and the analysis
  of \<^verbatim>\<open>*dup\<close> is not empty. The first statement of \<^verbatim>\<open>getRequiredProps\<close> follows a
  pointer to its element, and the package's test of embedded types relies on it.
\<close>

theorem required_of_pointer_counterexample:
  "Kind (PointerTo dup) \<noteq> reflect_Struct \<and> getRequiredProps (PointerTo dup) = [''Foo'']"
  by (simp add: PointerTo_def dup_def named_struct_def field_def namedFieldProps_def Get_def)

text \<open>
  C5, amended. For every type on whose fields \<^verbatim>\<open>omitempty\<close>, where present, is the only
  flag: the names returned are exactly those of \<open>Required_spec\<close> (an embedded field contributes
  the analysis of its type, a field without annotation its declared name, a renamed
  field its annotation name, a field renamed to \<^verbatim>\<open>-\<close> or flagged \<^verbatim>\<open>omitempty\<close>
  nothing); a pointer type is analysed as the type it points to; a type that is neither
  a struct nor a pointer yields nothing.
\<close>

theorem required_props_amended:
  assumes "plain_flags t"
  shows "set (getRequiredProps t) = Required_spec t \<and>
    getRequiredProps (PointerType h t) = getRequiredProps t \<and>
    (Kind t \<noteq> reflect_Struct \<and> Kind t \<noteq> reflect_Pointer \<longrightarrow> getRequiredProps t = [])"
proof -
  have "set (getRequiredProps t) = Required_spec t" using assms by (rule required_refines(1))
  moreover have "getRequiredProps (PointerType h t) = getRequiredProps t" by simp
  moreover have "Kind t \<noteq> reflect_Struct \<and> Kind t \<noteq> reflect_Pointer \<longrightarrow> getRequiredProps t = []"
    by (cases t) simp_all
  ultimately show ?thesis by blast
qed

theorem required_props_amended_witness:
  "plain_flags with_tags \<and>
   set (getRequiredProps with_tags) = {''foo'', ''Baz'', ''Foo''} \<and>
   Required_spec with_tags = {''foo'', ''Baz'', ''Foo''}"
proof -
  have p: "plain_flags with_tags"
    by (simp add: with_tags_def anonymous_struct_def field_def annotation_flags_def Get_def
        PointerTo_def dup_def named_struct_def)
  have r: "Required_spec with_tags = {''foo'', ''Baz'', ''Foo''}"
    by (auto simp add: with_tags_def anonymous_struct_def field_def annotation_flags_def Get_def
        annotation_name_def PointerTo_def dup_def named_struct_def)
  from required_props_amended [OF p] have "set (getRequiredProps with_tags) = Required_spec with_tags"
    by blast
  with r p show ?thesis by simp
qed

text \<open>
  The case the amended statement leaves out: with a second flag behind \<^verbatim>\<open>omitempty\<close>
  the comparison with the whole flag part fails and the field is reported as required.
\<close>

lemma required_with_second_flag:
  "getRequiredProps two_flags = [''id''] \<and>
   ''omitempty'' \<in> set (annotation_flags ''id,omitempty,string'')"
  by (simp add: two_flags_def anonymous_struct_def field_def namedFieldProps_def Get_def Cut_def
      annotation_flags_def)

section \<open>Properties of names and modules\<close>

lemma LastIndex_absent: "LastIndex s c < 0 \<longleftrightarrow> c \<notin> set s"
  by (induction s) (auto simp: Let_def)

lemma LastIndex_absent_value: "c \<notin> set s \<Longrightarrow> LastIndex s c = - 1"
  by (induction s) (auto simp: Let_def)

lemma LastIndex_take:
  "c \<in> set s \<Longrightarrow>
   take (nat (LastIndex s c)) s = rev (tl (dropWhile (\<lambda>x. x \<noteq> c) (rev s)))"
proof (induction s)
  case Nil
  then show ?case by simp
next
  case (Cons x xs)
  show ?case
  proof (cases "c \<in> set xs")
    case True
    then have r: "0 \<le> LastIndex xs c" using LastIndex_absent [of xs c] by simp
    have d: "dropWhile (\<lambda>x. x \<noteq> c) (rev xs) \<noteq> []" using True by simp
    have "dropWhile (\<lambda>x. x \<noteq> c) (rev xs @ [x]) = dropWhile (\<lambda>x. x \<noteq> c) (rev xs) @ [x]"
      using True by (intro dropWhile_append1 [of c]) auto
    then have "rev (tl (dropWhile (\<lambda>x. x \<noteq> c) (rev (x # xs)))) =
        x # rev (tl (dropWhile (\<lambda>x. x \<noteq> c) (rev xs)))"
      using d by simp
    moreover have "take (nat (LastIndex (x # xs) c)) (x # xs) = x # take (nat (LastIndex xs c)) xs"
      using r by (simp add: Let_def nat_add_distrib)
    ultimately show ?thesis using Cons.IH [OF True] by simp
  next
    case False
    with Cons.prems have x: "x = c" by simp
    have "LastIndex (x # xs) c = 0" using False x LastIndex_absent [of xs c] by (simp add: Let_def)
    moreover have "dropWhile (\<lambda>x. x \<noteq> c) (rev xs @ [x]) = [x]"
      using False x by (subst dropWhile_append2) auto
    ultimately show ?thesis by simp
  qed
qed

lemma TrimPrefix_dot: "TrimPrefix s ''.'' = without_leading_dot s"
  by (cases s) (simp_all add: TrimPrefix_def HasPrefix_def without_leading_dot_def)

lemma modulePath_slash:
  "CHR ''/'' \<in> set path \<Longrightarrow> modulePath path = Inr (module_of_path path)"
  using LastIndex_absent [of path "CHR ''/''"]
  by (simp add: modulePath_def Let_def LastIndex_take TrimPrefix_dot module_of_path_def
      before_last_slash_def dotted_def ReplaceAll_def)

lemma modulePath_no_slash:
  "CHR ''/'' \<notin> set path \<Longrightarrow>
   modulePath path = Inl (Panic ''runtime error: slice bounds out of range [:-1]'')"
  using LastIndex_absent [of path "CHR ''/''"] by (simp add: modulePath_def Let_def)

text \<open>
  C10. Each of the four constructors accepts any mountpoint. On a mountpoint without
  \<^verbatim>\<open>/\<close> the module of the returned function panics with the slice-bounds error while
  its name is the whole mountpoint; on a mountpoint with \<^verbatim>\<open>/\<close> the module is defined.
\<close>

theorem module_undefined_without_slash:
  assumes "f \<in> {Func TReq TRes mountpoint opts, FuncVoid TReq mountpoint opts,
                 FuncNullary TRes mountpoint opts, FuncNullaryVoid mountpoint opts}"
  shows "(CHR ''/'' \<notin> set mountpoint \<longrightarrow>
            Module f = Inl (Panic ''runtime error: slice bounds out of range [:-1]'') \<and>
            Name f = mountpoint) \<and>
         (CHR ''/'' \<in> set mountpoint \<longrightarrow> (\<exists>m. Module f = Inr m))"
proof -
  from assms obtain n treq tres st where f: "f = functionDefinition n mountpoint treq tres st"
    and n: "n = drop (nat (LastIndex mountpoint CHR ''/'' + 1)) mountpoint"
    by (auto simp: Func_def FuncVoid_def FuncNullary_def FuncNullaryVoid_def Let_def)
  have "CHR ''/'' \<notin> set mountpoint \<Longrightarrow> n = mountpoint"
    using n by (simp add: LastIndex_absent_value)
  then show ?thesis
    using f by (auto simp: modulePath_no_slash modulePath_slash)
qed

theorem module_undefined_without_slash_witness:
  "Module (Func (builtin ''int'') (builtin ''int'') ''inc'' []) =
     Inl (Panic ''runtime error: slice bounds out of range [:-1]'') \<and>
   Name (Func (builtin ''int'') (builtin ''int'') ''inc'' []) = ''inc'' \<and>
   Module (FuncNullaryVoid ''/counter/reset'' []) = Inr ''counter'' \<and>
   Name (FuncNullaryVoid ''/counter/reset'' []) = ''reset''"
proof -
  have a: "CHR ''/'' \<notin> set ''inc''" and b: "CHR ''/'' \<in> set ''/counter/reset''" by simp_all
  have 1: "Module (Func (builtin ''int'') (builtin ''int'') ''inc'' []) =
     Inl (Panic ''runtime error: slice bounds out of range [:-1]'') \<and>
     Name (Func (builtin ''int'') (builtin ''int'') ''inc'' []) = ''inc''"
    using module_undefined_without_slash
      [of "Func (builtin ''int'') (builtin ''int'') ''inc'' []" "builtin ''int''" "builtin ''int''"
        "''inc''" "[]"] a
    by blast
  have 2: "\<exists>m. Module (FuncNullaryVoid ''/counter/reset'' []) = Inr m"
    using module_undefined_without_slash
      [of "FuncNullaryVoid ''/counter/reset'' []" _ _ "''/counter/reset''" "[]"] b
    by blast
  have 3: "Module (FuncNullaryVoid ''/counter/reset'' []) = Inr ''counter''"
    by (simp add: FuncNullaryVoid_def modulePath_def Let_def ReplaceAll_def TrimPrefix_def
        HasPrefix_def)
  have 4: "Name (FuncNullaryVoid ''/counter/reset'' []) = ''reset''"
    by (simp add: FuncNullaryVoid_def Let_def)
  from 1 2 3 4 show ?thesis by simp
qed

section \<open>The order of a walk\<close>

text \<open>
  The visits of a walk as the specification words them: for a node with a schema, the
  members of \<^verbatim>\<open>allOf\<close>, of \<^verbatim>\<open>anyOf\<close> and of \<^verbatim>\<open>oneOf\<close>, the item schema, the properties
  and last the node itself; a node without schema is not visited. Every visit carries
  the context that an error of the visitor at that node is wrapped in. \<open>own\<close> is what a
  node holds besides its children; \<open>labels\<close> lists the visits by it.
\<close>

definition own :: "SchemaRef \<Rightarrow> string \<times> (string \<times> ext) list \<times> string list" where
  "own n = (case Value n of None \<Rightarrow> (Ref n, [], []) | Some s \<Rightarrow> (Ref n, Extensions s, Required s))"

definition below :: "string \<Rightarrow> (string \<times> 'a) list \<Rightarrow> (string \<times> 'a) list" where
  "below p vs = map (\<lambda>(c, n). (p @ c, n)) vs"

fun visits :: "SchemaRef \<Rightarrow> (string \<times> SchemaRef) list" where
  "visits (SchemaRef r None) = []"
| "visits (SchemaRef r (Some (Schema exts allOf anyOf oneOf items props req))) =
     concat (map (\<lambda>m. below ''allOf: '' (visits m)) allOf) @
     concat (map (\<lambda>m. below ''allOf: '' (visits m)) anyOf) @
     concat (map (\<lambda>m. below ''allOf: '' (visits m)) oneOf) @
     (case items of None \<Rightarrow> [] | Some i \<Rightarrow> below ''items: '' (visits i)) @
     concat (map (\<lambda>(k, p). below (''prop '' @ k @ '': '') (visits p)) props) @
     [([], SchemaRef r (Some (Schema exts allOf anyOf oneOf items props req)))]"

fun in_sequence :: "('l \<Rightarrow> 'st \<Rightarrow> error option \<times> 'st) \<Rightarrow> (string \<times> 'l) list \<Rightarrow> 'st \<Rightarrow> error option \<times> 'st" where
  "in_sequence f [] st = (None, st)"
| "in_sequence f ((c, l) # rest) st =
     (case f l st of
        (Some err, st') \<Rightarrow> (Some (Errorf c err), st')
      | (None, st') \<Rightarrow> in_sequence f rest st')"

definition outcome :: "(error + 'a) \<times> 'st \<Rightarrow> error option \<times> 'st" where
  "outcome r = (case r of (Inl err, st) \<Rightarrow> (Some err, st) | (Inr x, st) \<Rightarrow> (None, st))"

definition result :: "error option \<times> 'a \<times> 'st \<Rightarrow> error option \<times> 'st" where
  "result r = (case r of (err, x, st) \<Rightarrow> (err, st))"

text \<open>
  \<open>in_sequence\<close> runs a step over a list of visits and stops at the first error, which
  it wraps in the context of the visit. \<open>outcome\<close> and \<open>result\<close> keep the error and the state
  of what a visitor and a walk return.
\<close>

definition labels :: "SchemaRef \<Rightarrow> (string \<times> string \<times> (string \<times> ext) list \<times> string list) list" where
  "labels n = map (\<lambda>(c, m). (c, own m)) (visits n)"

definition and_then :: "error option \<times> 'st \<Rightarrow> ('st \<Rightarrow> error option \<times> 'st) \<Rightarrow> error option \<times> 'st" where
  "and_then r k = (case r of (Some err, st) \<Rightarrow> (Some err, st) | (None, st) \<Rightarrow> k st)"

definition in_context :: "string \<Rightarrow> error option \<times> 'st \<Rightarrow> error option \<times> 'st" where
  "in_context p r = (case r of (Some err, st) \<Rightarrow> (Some (Errorf p err), st) | (None, st) \<Rightarrow> (None, st))"

text \<open>
  The schema of the package's test of the walk, and its visitor that fails at one
  identifier; here it also replaces every node it visits. \<open>failing_step\<close> is the same
  step on what a node holds itself.
\<close>

definition stamped_node ::
  "string \<Rightarrow> SchemaRef list \<Rightarrow> SchemaRef list \<Rightarrow> SchemaRef list \<Rightarrow> SchemaRef option
    \<Rightarrow> (string \<times> SchemaRef) list \<Rightarrow> SchemaRef" where
  "stamped_node i allOf anyOf oneOf items props =
     SchemaRef [] (Some (Schema [(''$id'', ExtString i)] allOf anyOf oneOf items props []))"

definition walk_test_schema :: SchemaRef where
  "walk_test_schema =
     stamped_node ''root''
       [stamped_node ''allOf1'' [] [] [] None [],
        stamped_node ''allOfNested'' [] [stamped_node ''anyOf1'' [] [] [] None []] [] None []]
       []
       [stamped_node ''oneOf1'' [] [] [] None [], stamped_node ''oneOf2'' [] [] [] None []]
       None
       [(''prop1'', stamped_node ''prop1'' [] [] [] (Some (stamped_node ''item1'' [] [] [] None [])) []),
        (''prop2'', stamped_node ''prop2'' [] [] [] None
           [(''prop3'', stamped_node ''nestedProp'' [] [] [] None [])])]"

definition id_of :: "(string \<times> ext) list \<Rightarrow> string" where
  "id_of exts = (case map_of exts ''$id'' of Some (ExtString i) \<Rightarrow> i | _ \<Rightarrow> [])"

definition failing_visitor :: "string \<Rightarrow> string list visitorFn" where
  "failing_visitor failId s seen =
     (let i = (case Value s of None \<Rightarrow> [] | Some b \<Rightarrow> id_of (Extensions b)) in
      if i = failId then (Inl (Error ''test''), seen @ [i])
      else (Inr (Some (NewSchemaRef (''#/components/schemas/'' @ i) None)), seen @ [i]))"

definition failing_step ::
  "string \<Rightarrow> string \<times> (string \<times> ext) list \<times> string list \<Rightarrow> string list \<Rightarrow> error option \<times> string list" where
  "failing_step failId l seen =
     (let i = id_of (fst (snd l)) in
      if i = failId then (Some (Error ''test''), seen @ [i]) else (None, seen @ [i]))"

lemma Errorf_append: "Errorf (p @ c) e = Errorf p (Errorf c e)"
  by (cases e) simp_all

lemma Errorf_empty: "Errorf [] e = e"
  by (cases e) simp_all

lemma in_sequence_append:
  "in_sequence f (xs @ ys) st =
     (case in_sequence f xs st of
        (Some err, st') \<Rightarrow> (Some err, st')
      | (None, st') \<Rightarrow> in_sequence f ys st')"
  by (induction f xs st rule: in_sequence.induct) (auto split: prod.splits option.splits)

lemma in_sequence_below:
  "in_sequence f (below p xs) st =
     (case in_sequence f xs st of
        (Some err, st') \<Rightarrow> (Some (Errorf p err), st')
      | (None, st') \<Rightarrow> (None, st'))"
  by (induction f xs st rule: in_sequence.induct)
     (auto simp: below_def Errorf_append split: prod.splits option.splits)

lemma SchemaRef_induct [case_names Nil Node]:
  assumes "\<And>r. P (SchemaRef r None)"
    and "\<And>r exts allOf anyOf oneOf items props req.
      \<lbrakk>\<And>m. m \<in> set allOf \<Longrightarrow> P m; \<And>m. m \<in> set anyOf \<Longrightarrow> P m; \<And>m. m \<in> set oneOf \<Longrightarrow> P m;
       \<And>i. items = Some i \<Longrightarrow> P i; \<And>k p. (k, p) \<in> set props \<Longrightarrow> P p\<rbrakk>
      \<Longrightarrow> P (SchemaRef r (Some (Schema exts allOf anyOf oneOf items props req)))"
  shows "P n"
proof -
  have "P n \<and> (\<forall>r. P (SchemaRef r (Some s)))" for s
  proof (rule SchemaRef_Schema.induct [where ?P1.0 = P and ?P2.0 = "\<lambda>s. \<forall>r. P (SchemaRef r (Some s))"])
    fix x1 x2
    assume "\<And>x2a. x2a \<in> set_option x2 \<Longrightarrow> \<forall>r. P (SchemaRef r (Some x2a))"
    then show "P (SchemaRef x1 x2)" using assms(1) by (cases x2) auto
  next
    fix x1 x2 x3 x4 x5 and x6 :: "(string \<times> SchemaRef) list" and x7
    assume a: "\<And>x2a. x2a \<in> set x2 \<Longrightarrow> P x2a" "\<And>x3a. x3a \<in> set x3 \<Longrightarrow> P x3a"
      "\<And>x4a. x4a \<in> set x4 \<Longrightarrow> P x4a" "\<And>x5a. x5a \<in> set_option x5 \<Longrightarrow> P x5a"
      "\<And>x6a x6aa. \<lbrakk>x6a \<in> set x6; x6aa \<in> Basic_BNFs.snds x6a\<rbrakk> \<Longrightarrow> P x6aa"
    show "\<forall>r. P (SchemaRef r (Some (Schema x1 x2 x3 x4 x5 x6 x7)))"
    proof
      fix r
      show "P (SchemaRef r (Some (Schema x1 x2 x3 x4 x5 x6 x7)))"
      proof (rule assms(2))
        fix k p assume "(k, p) \<in> set x6"
        then show "P p" using a(5) [of "(k, p)" p] by (simp add: snds.simps)
      qed (use a in auto)
    qed
  qed
  then show ?thesis by blast
qed

lemma walkSchema_nil: "Value m = None \<Longrightarrow> walkSchema v m st = (None, m, st)"
  by (cases m) simp

lemma labels_nil: "Value m = None \<Longrightarrow> labels m = []"
  by (cases m) (simp add: labels_def)

lemma in_sequence_append': "in_sequence f (xs @ ys) st = and_then (in_sequence f xs st) (in_sequence f ys)"
  by (simp add: in_sequence_append and_then_def)

lemma in_sequence_below': "in_sequence f (below p xs) st = in_context p (in_sequence f xs st)"
  by (simp add: in_sequence_below in_context_def)

lemma result_walkRefs_Nil: "result (walkRefs p v [] st) = (None, st)"
  by (simp add: result_def)

lemma result_walkRefs_Cons:
  "result (walkRefs p v (m # ms) st) =
     and_then (in_context p (result (walkSchema v m st))) (\<lambda>st. result (walkRefs p v ms st))"
  by (cases "Value m")
     (simp_all add: walkSchema_nil result_def and_then_def in_context_def split: prod.splits option.splits)

lemma result_walkProps_Nil: "result (walkProps v [] st) = (None, st)"
  by (simp add: result_def)

lemma result_walkProps_Cons:
  "result (walkProps v ((k, p) # ps) st) =
     and_then (in_context (''prop '' @ k @ '': '') (result (walkSchema v p st)))
       (\<lambda>st. result (walkProps v ps st))"
  by (cases "Value p")
     (simp_all add: walkSchema_nil result_def and_then_def in_context_def split: prod.splits option.splits)

lemma walkRefs_sequence:
  assumes "\<And>m st. m \<in> set refs \<Longrightarrow> result (walkSchema v m st) = in_sequence f (labels m) st"
  shows "result (walkRefs p v refs st) =
     in_sequence f (concat (map (\<lambda>m. below p (labels m)) refs)) st"
  using assms
proof (induction refs arbitrary: st)
  case Nil
  show ?case by (simp add: result_def)
next
  case (Cons m ms)
  have m: "result (walkSchema v m st) = in_sequence f (labels m) st" for st
    by (rule Cons.prems) simp
  have ms: "result (walkRefs p v ms st) =
     in_sequence f (concat (map (\<lambda>m. below p (labels m)) ms)) st" for st
    by (rule Cons.IH) (simp add: Cons.prems)
  show ?case
    by (simp only: result_walkRefs_Cons m ms list.map concat.simps in_sequence_append'
        in_sequence_below')
qed

lemma walkProps_sequence:
  assumes "\<And>k p st. (k, p) \<in> set props \<Longrightarrow> result (walkSchema v p st) = in_sequence f (labels p) st"
  shows "result (walkProps v props st) =
     in_sequence f (concat (map (\<lambda>(k, p). below (''prop '' @ k @ '': '') (labels p)) props)) st"
  using assms
proof (induction props arbitrary: st)
  case Nil
  show ?case by (simp add: result_def)
next
  case (Cons kp ps)
  obtain k p where kp: "kp = (k, p)" by (cases kp)
  have m: "result (walkSchema v p st) = in_sequence f (labels p) st" for st
    by (rule Cons.prems [of k]) (simp add: kp)
  have ms: "result (walkProps v ps st) =
     in_sequence f (concat (map (\<lambda>(k, p). below (''prop '' @ k @ '': '') (labels p)) ps)) st" for st
  proof (rule Cons.IH)
    fix k p st
    assume "(k, p) \<in> set ps"
    then show "result (walkSchema v p st) = in_sequence f (labels p) st"
      by (intro Cons.prems [of k]) simp
  qed
  show ?case
    unfolding kp
    by (simp only: result_walkProps_Cons m ms list.map concat.simps in_sequence_append'
        in_sequence_below' prod.case)
qed


lemma labels_node:
  "labels (SchemaRef r (Some (Schema exts allOf anyOf oneOf items props req))) =
     concat (map (\<lambda>m. below ''allOf: '' (labels m)) allOf) @
     concat (map (\<lambda>m. below ''allOf: '' (labels m)) anyOf) @
     concat (map (\<lambda>m. below ''allOf: '' (labels m)) oneOf) @
     (case items of None \<Rightarrow> [] | Some i \<Rightarrow> below ''items: '' (labels i)) @
     concat (map (\<lambda>(k, p). below (''prop '' @ k @ '': '') (labels p)) props) @
     [([], (r, exts, req))]"
proof -
  have b: "map (\<lambda>(c, m). (c, own m)) (below p vs) = below p (map (\<lambda>(c, m). (c, own m)) vs)"
    for p and vs :: "(string \<times> SchemaRef) list"
    by (simp add: below_def case_prod_beta)
  have n: "own (SchemaRef r (Some (Schema exts allOf anyOf oneOf items props req))) = (r, exts, req)"
    by (simp add: own_def)
  have l: "map (\<lambda>(c, m). (c, own m)) (concat (map (\<lambda>m. below p (visits m)) ms)) =
      concat (map (\<lambda>m. below p (labels m)) ms)" for p ms
    by (simp add: map_concat comp_def b labels_def)
  have q: "map (\<lambda>(c, m). (c, own m))
        (concat (map (\<lambda>(k, p). below (''prop '' @ k @ '': '') (visits p)) ps)) =
      concat (map (\<lambda>(k, p). below (''prop '' @ k @ '': '') (labels p)) ps)" for ps
    by (induction ps) (auto simp: b labels_def)
  have i: "map (\<lambda>(c, m). (c, own m)) (case items of None \<Rightarrow> [] | Some i \<Rightarrow> below ''items: '' (visits i)) =
      (case items of None \<Rightarrow> [] | Some i \<Rightarrow> below ''items: '' (labels i))"
    by (cases items) (simp_all add: b labels_def)
  show ?thesis
    unfolding labels_def [of "SchemaRef r (Some (Schema exts allOf anyOf oneOf items props req))"]
      visits.simps map_append l q i
    by (simp add: n)
qed

lemma result_stage:
  assumes "result w = R" and "\<And>x st. result (k x st) = K st"
  shows "result (case w of (Some err, x, st) \<Rightarrow> (Some err, g x, st) | (None, x, st) \<Rightarrow> k x st) =
     and_then R K"
proof (cases w)
  case (fields err x st)
  then show ?thesis
    using assms(1) assms(2) [of x st]
    by (cases err) (auto simp: result_def and_then_def)
qed

lemma result_walkSchema_node:
  assumes "\<And>n st. outcome (v n st) = f (own n) st"
  shows "result (walkSchema v (SchemaRef r (Some (Schema exts allOf anyOf oneOf items props req))) st) =
     and_then (result (walkRefs ''allOf: '' v allOf st)) (\<lambda>st.
     and_then (result (walkRefs ''allOf: '' v anyOf st)) (\<lambda>st.
     and_then (result (walkRefs ''allOf: '' v oneOf st)) (\<lambda>st.
     and_then (case items of None \<Rightarrow> (None, st)
               | Some i \<Rightarrow> in_context ''items: '' (result (walkSchema v i st))) (\<lambda>st.
     and_then (result (walkProps v props st)) (\<lambda>st. f (r, exts, req) st)))))"
  unfolding walkSchema.simps
proof (intro result_stage refl)
  fix st :: 'a
  show "result (case items of None \<Rightarrow> (None, None, st)
      | Some i \<Rightarrow>
          (case walkSchema v i st of
             (None, i', st) \<Rightarrow> (None, Some i', st)
           | (Some err, i', st) \<Rightarrow> (Some (Errorf ''items: '' err), Some i', st))) =
    (case items of None \<Rightarrow> (None, st)
     | Some i \<Rightarrow> in_context ''items: '' (result (walkSchema v i st)))"
    by (simp add: result_def in_context_def split: option.splits prod.splits)
next
  fix a b c d e and st :: 'a
  show "result (let ref = SchemaRef r (Some (Schema exts a b c d e req)) in
      case v ref st of
        (Inl err, st) \<Rightarrow> (Some err, ref, st)
      | (Inr None, st) \<Rightarrow> (None, ref, st)
      | (Inr (Some replacedRef), st) \<Rightarrow> (None, replacedRef, st)) = f (r, exts, req) st"
    using assms [of "SchemaRef r (Some (Schema exts a b c d e req))" st]
    by (auto simp: outcome_def own_def result_def Let_def split: prod.splits sum.splits option.splits)
qed

text \<open>
  C7. For every visitor whose error and whose change of state depend only on what the
  visited node holds itself (whatever it returns as replacement): the walk yields the
  error and the state of running the visitor over \<open>labels\<close> in order, that is depth-first
  with the children before the parent, the members of \<^verbatim>\<open>allOf\<close>, \<^verbatim>\<open>anyOf\<close> and
  \<^verbatim>\<open>oneOf\<close>, the item schema, each property and finally the node, without the nodes
  that have no schema; it stops at the first error of the visitor, and that error
  carries the prefixes \<^verbatim>\<open>allOf: \<close>, \<^verbatim>\<open>items: \<close> and \<^verbatim>\<open>prop <name>: \<close> of the path to the
  failing node. A member of \<^verbatim>\<open>anyOf\<close> or \<^verbatim>\<open>oneOf\<close> has the prefix \<^verbatim>\<open>allOf: \<close> as well.
\<close>

theorem walkSchema_order:
  assumes "\<And>n st. outcome (visitor n st) = f (own n) st"
  shows "result (walkSchema visitor ref st) = in_sequence f (labels ref) st"
proof (induction ref arbitrary: st rule: SchemaRef_induct)
  case (Nil r)
  show ?case by (simp add: result_def labels_def)
next
  case (Node r exts allOf anyOf oneOf items props req)
  have i: "(case items of None \<Rightarrow> (None, st)
            | Some i \<Rightarrow> in_context ''items: '' (result (walkSchema visitor i st))) =
      in_sequence f (case items of None \<Rightarrow> [] | Some i \<Rightarrow> below ''items: '' (labels i)) st" for st
    by (cases items) (simp_all add: Node.IH(4) in_sequence_below')
  have e: "f (r, exts, req) st = in_sequence f [([], (r, exts, req))] st" for st
    by (cases "f (r, exts, req) st") (auto simp: Errorf_empty split: option.splits)
  have a1: "result (walkRefs ''allOf: '' visitor allOf st) =
      in_sequence f (concat (map (\<lambda>m. below ''allOf: '' (labels m)) allOf)) st" for st
    by (rule walkRefs_sequence) (rule Node.IH(1))
  have a2: "result (walkRefs ''allOf: '' visitor anyOf st) =
      in_sequence f (concat (map (\<lambda>m. below ''allOf: '' (labels m)) anyOf)) st" for st
    by (rule walkRefs_sequence) (rule Node.IH(2))
  have a3: "result (walkRefs ''allOf: '' visitor oneOf st) =
      in_sequence f (concat (map (\<lambda>m. below ''allOf: '' (labels m)) oneOf)) st" for st
    by (rule walkRefs_sequence) (rule Node.IH(3))
  have a5: "result (walkProps visitor props st) =
      in_sequence f
        (concat (map (\<lambda>(k, p). below (''prop '' @ k @ '': '') (labels p)) props)) st" for st
    by (rule walkProps_sequence) (rule Node.IH(5))
  have ap: "in_sequence f (xs @ ys) = (\<lambda>st. and_then (in_sequence f xs st) (in_sequence f ys))"
    for xs ys
    by (rule ext) (rule in_sequence_append')
  show ?case
    by (simp only: result_walkSchema_node [of visitor f, OF assms] labels_node ap a1 a2 a3 a5 i e)
qed


theorem walkSchema_order_witness:
  "result (walkSchema (failing_visitor ''item1'') walk_test_schema []) =
     (Some (Error ''prop prop1: items: test''),
      [''allOf1'', ''anyOf1'', ''allOfNested'', ''oneOf1'', ''oneOf2'', ''item1'']) \<and>
   result (walkSchema (failing_visitor ''anyOf1'') walk_test_schema []) =
     (Some (Error ''allOf: allOf: test''), [''allOf1'', ''anyOf1'']) \<and>
   result (walkSchema (failing_visitor []) walk_test_schema []) =
     (None, [''allOf1'', ''anyOf1'', ''allOfNested'', ''oneOf1'', ''oneOf2'', ''item1'',
        ''prop1'', ''nestedProp'', ''prop2'', ''root''])"
proof -
  have h: "outcome (failing_visitor x n st) = failing_step x (own n) st" for x n st
    by (cases n) (auto simp: outcome_def failing_visitor_def failing_step_def own_def Let_def id_of_def
        split: option.splits)
  have l: "labels walk_test_schema =
     [(''allOf: '', [], [(''$id'', ExtString ''allOf1'')], []),
      (''allOf: allOf: '', [], [(''$id'', ExtString ''anyOf1'')], []),
      (''allOf: '', [], [(''$id'', ExtString ''allOfNested'')], []),
      (''allOf: '', [], [(''$id'', ExtString ''oneOf1'')], []),
      (''allOf: '', [], [(''$id'', ExtString ''oneOf2'')], []),
      (''prop prop1: items: '', [], [(''$id'', ExtString ''item1'')], []),
      (''prop prop1: '', [], [(''$id'', ExtString ''prop1'')], []),
      (''prop prop2: prop prop3: '', [], [(''$id'', ExtString ''nestedProp'')], []),
      (''prop prop2: '', [], [(''$id'', ExtString ''prop2'')], []),
      ([], [], [(''$id'', ExtString ''root'')], [])]"
    by (simp add: walk_test_schema_def stamped_node_def labels_def below_def own_def)
  show ?thesis
    unfolding walkSchema_order [of "failing_visitor x" "failing_step x" for x, OF h] l
    by (simp add: failing_step_def id_of_def)
qed

section \<open>Extraction of sub-schemas\<close>

text \<open>
  \<open>stamp\<close> is the pending identifier of a node: the string under \<^verbatim>\<open>$id\<close> in the
  extensions of its schema, without one leading \<^verbatim>\<open>#\<close>. \<open>promote\<close> is the tree as the
  specification describes it after extraction: every node that carries a stamp is
  replaced, from the leaves up, by the reference to its identifier. \<open>pending\<close> lists the
  stamps of a tree, \<open>props_of\<close> the properties of a node.
\<close>

definition stamp :: "SchemaRef \<Rightarrow> string option" where
  "stamp n =
     (case Value n of
        None \<Rightarrow> None
      | Some s \<Rightarrow>
          (case map_of (Extensions s) ''$id'' of
             Some (ExtString i) \<Rightarrow> Some (TrimPrefix i ''#'')
           | _ \<Rightarrow> None))"

fun promote :: "SchemaRef \<Rightarrow> SchemaRef" where
  "promote (SchemaRef r None) = SchemaRef r None"
| "promote (SchemaRef r (Some (Schema exts allOf anyOf oneOf items props req))) =
     (case stamp (SchemaRef r (Some (Schema exts allOf anyOf oneOf items props req))) of
        Some i \<Rightarrow> SchemaRef (''#/components/schemas/'' @ i) None
      | None \<Rightarrow>
          SchemaRef r (Some (Schema exts (map promote allOf) (map promote anyOf)
            (map promote oneOf) (map_option promote items)
            (map (\<lambda>(k, p). (k, promote p)) props) req)))"

fun pending :: "SchemaRef \<Rightarrow> string list" where
  "pending (SchemaRef r None) = []"
| "pending (SchemaRef r (Some (Schema exts allOf anyOf oneOf items props req))) =
     concat (map pending allOf) @ concat (map pending anyOf) @ concat (map pending oneOf) @
     (case items of None \<Rightarrow> [] | Some i \<Rightarrow> pending i) @
     concat (map (\<lambda>(k, p). pending p) props) @
     (case stamp (SchemaRef r (Some (Schema exts allOf anyOf oneOf items props req))) of
        Some i \<Rightarrow> [i] | None \<Rightarrow> [])"


text \<open>
  What a walk with \<^verbatim>\<open>extractSubSchemas\<close> from the table \<open>s\<close> returns: a table that keeps
  every entry of \<open>s\<close> and, when there is no error, the expected tree and the identifiers
  \<open>A\<close> among its keys.
\<close>

definition extracted ::
  "Schemas \<Rightarrow> 'a \<Rightarrow> string set \<Rightarrow> error option \<times> 'a \<times> Schemas \<Rightarrow> bool" where
  "extracted s X A w =
     (case w of (err, x, s') \<Rightarrow> s \<subseteq>\<^sub>m s' \<and> (err = None \<longrightarrow> x = X \<and> A \<subseteq> dom s'))"











lemma stage_extracted:
  assumes "extracted s X A w" and "\<And>s1. extracted s1 N B (k X s1)"
  shows "extracted s N (A \<union> B)
    (case w of (Some err, x, st) \<Rightarrow> (Some (h err), g x, st) | (None, x, st) \<Rightarrow> k x st)"
proof (cases w)
  case (fields err x s1)
  show ?thesis
  proof (cases err)
    case None
    with fields assms(1) have x: "x = X" and m: "s \<subseteq>\<^sub>m s1" and a: "A \<subseteq> dom s1"
      by (simp_all add: extracted_def)
    obtain e n s2 where k: "k X s1 = (e, n, s2)" by (cases "k X s1")
    with assms(2) [of s1] have m2: "s1 \<subseteq>\<^sub>m s2" and r: "e = None \<longrightarrow> n = N \<and> B \<subseteq> dom s2"
      by (simp_all add: extracted_def)
    from m m2 have "s \<subseteq>\<^sub>m s2" by (rule map_le_trans)
    moreover from a m2 have "A \<subseteq> dom s2" using map_le_implies_dom_le by blast
    ultimately show ?thesis using fields None x k r by (simp add: extracted_def)
  next
    case (Some e)
    with fields assms(1) show ?thesis by (simp add: extracted_def)
  qed
qed


lemma extracted_map:
  assumes "extracted s X A w"
  shows "extracted s (g X) A (case w of (err, x, st) \<Rightarrow> (err, g x, st))"
  using assms by (cases w) (auto simp: extracted_def)

lemma walkRefs_Cons:
  "walkRefs p v (m # ms) st =
     (case walkSchema v m st of
        (Some err, m', st) \<Rightarrow> (Some (Errorf p err), m' # ms, st)
      | (None, m', st) \<Rightarrow>
          (case walkRefs p v ms st of (err, ms', st) \<Rightarrow> (err, m' # ms', st)))"
  by (cases "Value m") (simp_all add: walkSchema_nil)

lemma walkProps_Cons:
  "walkProps v ((k, p) # ps) st =
     (case walkSchema v p st of
        (Some err, p', st) \<Rightarrow> (Some (Errorf (''prop '' @ k @ '': '') err), (k, p') # ps, st)
      | (None, p', st) \<Rightarrow>
          (case walkProps v ps st of (err, ps', st) \<Rightarrow> (err, (k, p') # ps', st)))"
  by (cases "Value p") (simp_all add: walkSchema_nil)

lemma walkRefs_extracted:
  assumes "\<And>m s. m \<in> set refs \<Longrightarrow>
    extracted s (promote m) (set (pending m)) (walkSchema extractSubSchemas m s)"
  shows "extracted s (map promote refs) (set (concat (map pending refs)))
    (walkRefs p extractSubSchemas refs s)"
  using assms
proof (induction refs arbitrary: s)
  case Nil
  show ?case by (simp add: extracted_def)
next
  case (Cons m ms)
  have m: "extracted s (promote m) (set (pending m)) (walkSchema extractSubSchemas m s)" for s
    by (rule Cons.prems) simp
  have ms: "extracted s (map promote ms) (set (concat (map pending ms)))
    (walkRefs p extractSubSchemas ms s)" for s
    by (rule Cons.IH) (simp add: Cons.prems)
  have "extracted s (promote m # map promote ms)
      (set (pending m) \<union> set (concat (map pending ms)))
      (walkRefs p extractSubSchemas (m # ms) s)"
    unfolding walkRefs_Cons
    by (rule stage_extracted [OF m]) (rule extracted_map [OF ms])
  then show ?case by simp
qed

lemma walkProps_extracted:
  assumes "\<And>k q s. (k, q) \<in> set props \<Longrightarrow>
    extracted s (promote q) (set (pending q)) (walkSchema extractSubSchemas q s)"
  shows "extracted s (map (\<lambda>(k, q). (k, promote q)) props)
    (set (concat (map (\<lambda>(k, q). pending q) props)))
    (walkProps extractSubSchemas props s)"
  using assms
proof (induction props arbitrary: s)
  case Nil
  show ?case by (simp add: extracted_def)
next
  case (Cons kq ps)
  obtain k q where kq: "kq = (k, q)" by (cases kq)
  have m: "extracted s (promote q) (set (pending q)) (walkSchema extractSubSchemas q s)" for s
    by (rule Cons.prems [of k]) (simp add: kq)
  have ms: "extracted s (map (\<lambda>(k, q). (k, promote q)) ps)
    (set (concat (map (\<lambda>(k, q). pending q) ps))) (walkProps extractSubSchemas ps s)" for s
  proof (rule Cons.IH)
    fix k q s
    assume "(k, q) \<in> set ps"
    then show "extracted s (promote q) (set (pending q)) (walkSchema extractSubSchemas q s)"
      by (intro Cons.prems [of k]) simp
  qed
  have "extracted s ((k, promote q) # map (\<lambda>(k, q). (k, promote q)) ps)
      (set (pending q) \<union> set (concat (map (\<lambda>(k, q). pending q) ps)))
      (walkProps extractSubSchemas ((k, q) # ps) s)"
    unfolding walkProps_Cons
    by (rule stage_extracted [OF m, where g = "\<lambda>x. (k, x) # ps"])
       (rule extracted_map [OF ms, where g = "\<lambda>x. (k, promote q) # x"])
  then show ?case by (simp add: kq)
qed

lemma visit_extracted:
  "extracted s1
     (promote (SchemaRef r (Some (Schema exts allOf anyOf oneOf items props req))))
     (set (case stamp (SchemaRef r (Some (Schema exts allOf anyOf oneOf items props req))) of
             Some i \<Rightarrow> [i] | None \<Rightarrow> []))
     (let ref = SchemaRef r (Some (Schema exts (map promote allOf) (map promote anyOf)
            (map promote oneOf) (map_option promote items)
            (map (\<lambda>(k, p). (k, promote p)) props) req)) in
      case extractSubSchemas ref s1 of
        (Inl err, st) \<Rightarrow> (Some err, ref, st)
      | (Inr None, st) \<Rightarrow> (None, ref, st)
      | (Inr (Some replacedRef), st) \<Rightarrow> (None, replacedRef, st))"
proof (cases "map_of exts ''$id''")
  case None
  then show ?thesis
    by (simp add: extracted_def extractSubSchemas_def stamp_def)
next
  case (Some e)
  show ?thesis
  proof (cases e)
    case (ExtString i)
    with Some show ?thesis
      by (auto simp: extracted_def extractSubSchemas_def stamp_def NewSchemaRef_def Let_def
          map_le_def)
  next
    case ExtOther
    with Some show ?thesis
      by (simp add: extracted_def extractSubSchemas_def stamp_def)
  qed
qed

lemma walkSchema_extracted:
  "extracted s (promote n) (set (pending n)) (walkSchema extractSubSchemas n s)"
proof (induction n arbitrary: s rule: SchemaRef_induct)
  case (Nil r)
  show ?case by (simp add: extracted_def)
next
  case (Node r exts allOf anyOf oneOf items props req)
  let ?n = "SchemaRef r (Some (Schema exts allOf anyOf oneOf items props req))"
  have a1: "extracted s (map promote allOf) (set (concat (map pending allOf)))
      (walkRefs ''allOf: '' extractSubSchemas allOf s)" for s
    by (rule walkRefs_extracted) (rule Node.IH(1))
  have a2: "extracted s (map promote anyOf) (set (concat (map pending anyOf)))
      (walkRefs ''allOf: '' extractSubSchemas anyOf s)" for s
    by (rule walkRefs_extracted) (rule Node.IH(2))
  have a3: "extracted s (map promote oneOf) (set (concat (map pending oneOf)))
      (walkRefs ''allOf: '' extractSubSchemas oneOf s)" for s
    by (rule walkRefs_extracted) (rule Node.IH(3))
  have a4: "extracted s (map_option promote items)
      (set (case items of None \<Rightarrow> [] | Some i \<Rightarrow> pending i))
      (case items of
         None \<Rightarrow> (None, None, s)
       | Some i \<Rightarrow>
           (case walkSchema extractSubSchemas i s of
              (Some err, i', st) \<Rightarrow> (Some (Errorf ''items: '' err), Some i', st)
            | (None, i', st) \<Rightarrow> (None, Some i', st)))" for s
  proof (cases items)
    case None
    then show ?thesis by (simp add: extracted_def)
  next
    case (Some i)
    from Node.IH(4) [OF Some, of s] show ?thesis
      by (cases "walkSchema extractSubSchemas i s")
         (auto simp: Some extracted_def split: option.splits)
  qed
  have a5: "extracted s (map (\<lambda>(k, q). (k, promote q)) props)
      (set (concat (map (\<lambda>(k, q). pending q) props)))
      (walkProps extractSubSchemas props s)" for s
    by (rule walkProps_extracted) (rule Node.IH(5))
  have "extracted s (promote ?n)
      (set (concat (map pending allOf)) \<union> (set (concat (map pending anyOf)) \<union>
       (set (concat (map pending oneOf)) \<union>
       (set (case items of None \<Rightarrow> [] | Some i \<Rightarrow> pending i) \<union>
       (set (concat (map (\<lambda>(k, q). pending q) props)) \<union>
        set (case stamp ?n of Some i \<Rightarrow> [i] | None \<Rightarrow> []))))))
      (walkSchema extractSubSchemas ?n s)"
    unfolding walkSchema.simps
    apply (rule stage_extracted [OF a1, where h = "\<lambda>e. e"])
    apply (rule stage_extracted [OF a2, where h = "\<lambda>e. e"])
    apply (rule stage_extracted [OF a3, where h = "\<lambda>e. e"])
    apply (rule stage_extracted [OF a4, where h = "\<lambda>e. e"])
    apply (rule stage_extracted [OF a5, where h = "\<lambda>e. e"])
    apply (rule visit_extracted)
    done
  then show ?case by (simp add: Un_assoc)
qed
















section \<open>Reflection of a schema\<close>

text \<open>
  What the reflection of a schema can change: the table \<^verbatim>\<open>schemas\<close>, and the \<open>world\<close>,
  which stands for everything else that user-supplied code (a mapper, a customizer, a
  schema provider) can read or change, such as the call counter of a spy.
\<close>

record 'w store =
  schemas :: Schemas
  world :: 'w

type_synonym 'w SchemaMapper = "go_type \<Rightarrow> 'w \<Rightarrow> Schema option \<times> 'w"

type_synonym SchemaIdentifier = "go_type \<Rightarrow> string"

type_synonym 'w SchemaCustomizer =
  "string \<Rightarrow> go_type \<Rightarrow> (string \<times> string) list \<Rightarrow> Schema \<Rightarrow> 'w store
    \<Rightarrow> (bool \<times> error option) \<times> Schema \<times> 'w store"

type_synonym 'w SchemaCustomizerFn =
  "string \<Rightarrow> go_type \<Rightarrow> (string \<times> string) list \<Rightarrow> Schema \<Rightarrow> 'w store
    \<Rightarrow> error option \<times> Schema \<times> 'w store"

record 'w reflectSettings =
  mapper :: "'w SchemaMapper option"
  typeNamer :: SchemaIdentifier
  skipExtractSubSchemas :: bool
  customizers :: "'w SchemaCustomizer list"

text \<open>
  Code outside the package: \<^verbatim>\<open>NewSchemaRefForValue\<close> of the generator of
  \<^verbatim>\<open>kin-openapi\<close>, built with the customizer it calls for every type it visits, and the
  method \<^verbatim>\<open>JSONSchema\<close> of the types that implement \<^verbatim>\<open>SchemaProvider\<close>. Both are
  parameters of the model; each may change the table and the world.
\<close>

record 'w external =
  NewSchemaRefForValue :: "'w SchemaCustomizerFn \<Rightarrow> go_type \<Rightarrow> 'w store \<Rightarrow> (error + SchemaRef) \<times> 'w store"
  JSONSchema :: "go_type \<Rightarrow> 'w store \<Rightarrow> (error + SchemaRef) \<times> 'w store"

fun setExtension :: "string \<Rightarrow> ext \<Rightarrow> Schema \<Rightarrow> Schema" where
  "setExtension k v (Schema exts allOf anyOf oneOf items props req) =
     Schema (AList.update k v exts) allOf anyOf oneOf items props req"

fun appendRequired :: "string list \<Rightarrow> Schema \<Rightarrow> Schema" where
  "appendRequired names (Schema exts allOf anyOf oneOf items props req) =
     Schema exts allOf anyOf oneOf items props (req @ names)"

text \<open>
  The steps of the customizer pipeline. A step returns \<^verbatim>\<open>(stop, err)\<close> and changes the
  schema in place. In \<^verbatim>\<open>useCutomType\<close>, \<^verbatim>\<open>reflect.New(t)\<close> is a pointer to a value of
  the type: it has the methods of the type unless the type is itself a pointer or an
  interface, and then the type assertion to \<^verbatim>\<open>SchemaProvider\<close> panics.
\<close>

definition setID :: "go_type \<Rightarrow> SchemaIdentifier \<Rightarrow> 'w SchemaCustomizer" where
  "setID mainType namer =
     (let mainStructType = (case mainType of PointerType h e \<Rightarrow> e | _ \<Rightarrow> mainType) in
      (\<lambda>name t tag schema st.
         if t \<noteq> mainStructType \<and> Kind t = reflect_Struct
         then ((False, None), setExtension ''$id'' (ExtString (''#'' @ namer t)) schema, st)
         else ((False, None), schema, st)))"

definition tryMap :: "'w SchemaMapper option \<Rightarrow> 'w SchemaCustomizer" where
  "tryMap mapper' name t tag schema st =
     (case mapper' of
        None \<Rightarrow> ((False, None), schema, st)
      | Some m \<Rightarrow>
          (case m t (world st) of
             (Some s, w) \<Rightarrow> ((True, None), s, st\<lparr>world := w\<rparr>)
           | (None, w) \<Rightarrow> ((False, None), schema, st\<lparr>world := w\<rparr>)))"

definition useCutomType :: "'w external \<Rightarrow> 'w SchemaCustomizer" where
  "useCutomType ext name t tag schema st =
     (if Implements t SchemaProvider then
        if Kind t = reflect_Pointer \<or> Kind t = reflect_Interface
        then ((True, Some (Panic (''interface conversion: *'' @ String (hdr t) @
                '' is not expose.SchemaProvider: missing method JSONSchema''))), schema, st)
        else
        (case JSONSchema ext t st of
           (Inl err, st) \<Rightarrow>
             ((True, Some (Errorf (''failed to generate custom schema for '' @ TypeName (hdr t) @ '': '')
                err)), schema, st)
         | (Inr customSchema, st) \<Rightarrow>
             (case Value customSchema of
                None \<Rightarrow>
                  ((True, Some (Panic ''runtime error: invalid memory address or nil pointer dereference'')),
                   schema, st)
              | Some s \<Rightarrow> ((True, None), s, st)))
      else ((False, None), schema, st))"

definition markPropertiesRequired :: "'w SchemaCustomizer" where
  "markPropertiesRequired name t tag schema st =
     ((False, None), appendRequired (getRequiredProps t) schema, st)"

fun newCustomizerFlow :: "'w SchemaCustomizer list \<Rightarrow> 'w SchemaCustomizerFn" where
  "newCustomizerFlow [] name t tag schema st = (None, schema, st)"
| "newCustomizerFlow (p # pipes) name t tag schema st =
     (case p name t tag schema st of
        ((stop, Some err), schema, st) \<Rightarrow> (Some err, schema, st)
      | ((True, None), schema, st) \<Rightarrow> (None, schema, st)
      | ((False, None), schema, st) \<Rightarrow> newCustomizerFlow pipes name t tag schema st)"

text \<open>
  \<^verbatim>\<open>reflectSchema\<close>. The value \<^verbatim>\<open>val\<close> is represented by its dynamic type.
  \<^verbatim>\<open>schemas[id] = ref\<close> stores the pointer \<^verbatim>\<open>ref\<close>, and the walk that follows changes
  what it points to: the entry under \<open>id\<close> is the tree as the walk leaves it, which the
  model writes to the table after the walk (\<open>extract_keeps_entry\<close>: the walk itself
  leaves the key in place).
\<close>

definition reflectSchema ::
  "'w external \<Rightarrow> go_type \<Rightarrow> 'w reflectSettings \<Rightarrow> 'w store \<Rightarrow> (error + SchemaRef) \<times> 'w store" where
  "reflectSchema ext val settings st =
     (let fail = Errorf (''failed to reflect schema '' @ String (hdr val) @ ''; '');
          t = val;
          id = typeNamer settings t
      in
      if schemas st id \<noteq> None
      then (Inr (NewSchemaRef (''#/components/schemas/'' @ id) None), st)
      else
        let pipes = [setID t (typeNamer settings)] @ customizers settings @
              [tryMap (mapper settings), useCutomType ext, markPropertiesRequired]
        in
        case NewSchemaRefForValue ext (newCustomizerFlow pipes) val st of
          (Inl err, st) \<Rightarrow> (Inl (fail err), st)
        | (Inr ref, st) \<Rightarrow>
            let st = st\<lparr>schemas := (schemas st)(id \<mapsto> ref)\<rparr> in
            if \<not> skipExtractSubSchemas settings \<and> Value ref \<noteq> None
            then
              (case walkSchema extractSubSchemas ref (schemas st) of
                 (Some err, ref, tbl) \<Rightarrow> (Inl (fail err), st\<lparr>schemas := tbl(id \<mapsto> ref)\<rparr>)
               | (None, ref, tbl) \<Rightarrow>
                   (Inr (NewSchemaRef (''#/components/schemas/'' @ id) None),
                    st\<lparr>schemas := tbl(id \<mapsto> ref)\<rparr>))
            else (Inr (NewSchemaRef (''#/components/schemas/'' @ id) None), st))"

text \<open>
  A generator that builds an empty schema and calls the customizer once for the type,
  and a mapper that counts its calls in the world.
\<close>

definition spy_mapper :: "nat SchemaMapper" where
  "spy_mapper t calls = (None, Suc calls)"

definition flat_generator ::
  "'w SchemaCustomizerFn \<Rightarrow> go_type \<Rightarrow> 'w store \<Rightarrow> (error + SchemaRef) \<times> 'w store" where
  "flat_generator customizer t st =
     (case customizer [] t [] (Schema [] [] [] [] None [] []) st of
        (Some err, s, st) \<Rightarrow> (Inl err, st)
      | (None, s, st) \<Rightarrow> (Inr (SchemaRef [] (Some s)), st))"

definition test_external :: "nat external" where
  "test_external =
     \<lparr>NewSchemaRefForValue = flat_generator,
      JSONSchema = (\<lambda>t st. (Inl (Error ''no schema provider''), st))\<rparr>"

definition test_settings :: "nat reflectSettings" where
  "test_settings =
     \<lparr>mapper = Some spy_mapper, typeNamer = DefaultSchemaIdentifier,
      skipExtractSubSchemas = False, customizers = []\<rparr>"

lemma extract_keeps_entry:
  assumes "walkSchema extractSubSchemas ref tbl = (err, ref', tbl')" and "tbl i \<noteq> None"
  shows "tbl' i = tbl i"
proof -
  from walkSchema_extracted [of tbl ref] assms(1) have "tbl \<subseteq>\<^sub>m tbl'"
    by (simp add: extracted_def)
  with assms(2) show ?thesis by (auto simp: map_le_def dom_def)
qed

lemma reflectSchema_registers:
  assumes "reflectSchema ext val settings st = (Inr r, st')"
  shows "schemas st' (typeNamer settings val) \<noteq> None \<and>
    r = NewSchemaRef (''#/components/schemas/'' @ typeNamer settings val) None"
  using assms
  by (auto simp: reflectSchema_def Let_def split: if_splits prod.splits sum.splits option.splits)

text \<open>
  C1. When the identifier of the value's type is a key of the table, \<^verbatim>\<open>reflectSchema\<close>
  returns the reference \<^verbatim>\<open>#/components/schemas/<id>\<close> and the store it was given,
  whatever the generator, the providers and the settings are: nothing of them has run,
  and neither the table nor the world has changed. And after a call that returned a
  reference, a second call for the same value with the same namer returns that
  reference and leaves the store unchanged.
\<close>

theorem reflectSchema_dedup:
  "(schemas st (typeNamer settings val) \<noteq> None \<longrightarrow>
      reflectSchema ext val settings st =
        (Inr (NewSchemaRef (''#/components/schemas/'' @ typeNamer settings val) None), st)) \<and>
   (\<forall>r st'. reflectSchema ext val settings st = (Inr r, st') \<and>
        typeNamer settings2 = typeNamer settings \<longrightarrow>
      r = NewSchemaRef (''#/components/schemas/'' @ typeNamer settings val) None \<and>
      reflectSchema ext2 val settings2 st' = (Inr r, st'))"
proof (intro conjI allI impI)
  assume "schemas st (typeNamer settings val) \<noteq> None"
  then show "reflectSchema ext val settings st =
      (Inr (NewSchemaRef (''#/components/schemas/'' @ typeNamer settings val) None), st)"
    by (simp add: reflectSchema_def Let_def)
next
  fix r st'
  assume a: "reflectSchema ext val settings st = (Inr r, st') \<and>
    typeNamer settings2 = typeNamer settings"
  then show "r = NewSchemaRef (''#/components/schemas/'' @ typeNamer settings val) None"
    using reflectSchema_registers by blast
  from a reflectSchema_registers [of ext val settings st r st']
  have "schemas st' (typeNamer settings2 val) \<noteq> None"
    and "r = NewSchemaRef (''#/components/schemas/'' @ typeNamer settings2 val) None"
    by simp_all
  then show "reflectSchema ext2 val settings2 st' = (Inr r, st')"
    by (simp add: reflectSchema_def Let_def)
qed

theorem reflectSchema_dedup_witness:
  "reflectSchema test_external dup test_settings \<lparr>schemas = Map.empty, world = 0\<rparr> =
     (Inr (SchemaRef ''#/components/schemas/github.com.pbedat.expose.dup'' None),
      \<lparr>schemas = [''github.com.pbedat.expose.dup'' \<mapsto>
          SchemaRef [] (Some (Schema [] [] [] [] None [] [''Foo'']))],
       world = 1\<rparr>) \<and>
   reflectSchema test_external dup test_settings
     \<lparr>schemas = [''github.com.pbedat.expose.dup'' \<mapsto>
          SchemaRef [] (Some (Schema [] [] [] [] None [] [''Foo'']))],
       world = 1\<rparr> =
     (Inr (SchemaRef ''#/components/schemas/github.com.pbedat.expose.dup'' None),
      \<lparr>schemas = [''github.com.pbedat.expose.dup'' \<mapsto>
          SchemaRef [] (Some (Schema [] [] [] [] None [] [''Foo'']))],
       world = 1\<rparr>)"
proof -
  let ?st1 = "\<lparr>schemas = [''github.com.pbedat.expose.dup'' \<mapsto>
          SchemaRef [] (Some (Schema [] [] [] [] None [] [''Foo'']))], world = 1::nat\<rparr>"
  have n: "DefaultSchemaIdentifier dup = ''github.com.pbedat.expose.dup''"
    by (simp add: dup_def named_struct_def ReplaceAll_def)
  have k: "Kind dup = reflect_Struct" "\<not> Implements dup SchemaProvider"
    "getRequiredProps dup = [''Foo'']"
    by (simp_all add: dup_def named_struct_def Implements_def field_def namedFieldProps_def Get_def)
  have m: "(case dup of PointerType h e \<Rightarrow> e | _ \<Rightarrow> dup) = dup"
    by (simp add: dup_def named_struct_def)
  have g: "flat_generator (newCustomizerFlow
        [setID dup DefaultSchemaIdentifier, tryMap (Some spy_mapper), useCutomType test_external,
         markPropertiesRequired]) dup \<lparr>schemas = Map.empty, world = 0\<rparr> =
      (Inr (SchemaRef [] (Some (Schema [] [] [] [] None [] [''Foo'']))),
       \<lparr>schemas = Map.empty, world = 1\<rparr>)"
    by (simp add: flat_generator_def setID_def tryMap_def spy_mapper_def useCutomType_def
        markPropertiesRequired_def k m Let_def)
  have ge: "NewSchemaRefForValue test_external = flat_generator"
    by (simp add: test_external_def)
  have first: "reflectSchema test_external dup test_settings \<lparr>schemas = Map.empty, world = 0\<rparr> =
     (Inr (SchemaRef ''#/components/schemas/github.com.pbedat.expose.dup'' None), ?st1)"
    by (simp add: reflectSchema_def test_settings_def ge n g Let_def
        NewSchemaRef_def extractSubSchemas_def)
  from reflectSchema_dedup [of "\<lparr>schemas = Map.empty, world = 0\<rparr>" test_settings dup
      test_external test_settings test_external] first
  have "reflectSchema test_external dup test_settings ?st1 =
     (Inr (SchemaRef ''#/components/schemas/github.com.pbedat.expose.dup'' None), ?st1)"
    by blast
  with first show ?thesis by simp
qed

section \<open>The generated document\<close>

text \<open>
  The document \<^verbatim>\<open>openapi3.T\<close> with the parts that \<^verbatim>\<open>ReflectSpec\<close> writes: the version,
  the components and the operations, by path and HTTP method. \<^verbatim>\<open>AddOperation\<close> of
  \<^verbatim>\<open>kin-openapi\<close> sets the operation of the method in the item of the path, which it
  creates when the path has none; an operation that was there is overwritten.
\<close>

record Operation =
  OperationID :: string
  Tags :: "string list"
  RequestBody :: "SchemaRef option"
  Responses :: "(nat \<times> SchemaRef) list"

record Components =
  Schemas :: Schemas

record T =
  OpenAPI :: string
  Components :: "Components option"
  Paths :: "string \<rightharpoonup> (string \<rightharpoonup> Operation)"

definition NewOperation :: Operation where
  "NewOperation = \<lparr>OperationID = [], Tags = [], RequestBody = None, Responses = []\<rparr>"

definition AddOperation :: "string \<Rightarrow> string \<Rightarrow> Operation \<Rightarrow> T \<Rightarrow> T" where
  "AddOperation path httpMethod operation doc =
     doc\<lparr>Paths := (Paths doc)(path \<mapsto>
       (case Paths doc path of
          None \<Rightarrow> [httpMethod \<mapsto> operation]
        | Some pathItem \<Rightarrow> pathItem(httpMethod \<mapsto> operation)))\<rparr>"

type_synonym 'w reflectSpecOpt = "'w reflectSettings \<Rightarrow> 'w reflectSettings"

definition WithSchemaMapper :: "'w SchemaMapper option \<Rightarrow> 'w reflectSpecOpt" where
  "WithSchemaMapper mapper' s = s\<lparr>mapper := mapper'\<rparr>"

definition WithSchemaCustomizers :: "'w SchemaCustomizer list \<Rightarrow> 'w reflectSpecOpt" where
  "WithSchemaCustomizers customizers' s = s\<lparr>customizers := customizers s @ customizers'\<rparr>"

definition withSettings :: "'w reflectSettings \<Rightarrow> 'w reflectSpecOpt" where
  "withSettings settings s = settings"

definition SkipExtractSubSchemas :: "bool list \<Rightarrow> 'w reflectSpecOpt" where
  "SkipExtractSubSchemas skip s =
     (if length skip > 0 then s\<lparr>skipExtractSubSchemas := hd skip\<rparr>
      else s\<lparr>skipExtractSubSchemas := True\<rparr>)"

text \<open>
  \<^verbatim>\<open>ReflectSpec\<close>. \<open>reflectOperation\<close> is the body of its loop up to the operation that is
  added to the document, \<open>reflectFunctions\<close> the loop. \<^verbatim>\<open>fn.Module()\<close> is called for the
  operation id and again for the tag; it has no state, so the model calls it once. The
  table starts empty and becomes the schemas of the document when the template has no
  components; with components in the template the document keeps those.
\<close>

definition reflectOperation ::
  "'w external \<Rightarrow> 'w reflectSettings \<Rightarrow> Function \<Rightarrow> 'w store \<Rightarrow> (error + Operation) \<times> 'w store" where
  "reflectOperation ext settings fn st =
     (let fail = Errorf ''failed to reflect openapi spec: '' in
      case Module fn of
        Inl err \<Rightarrow> (Inl err, st)
      | Inr m \<Rightarrow>
          let op = NewOperation\<lparr>OperationID := m @ ''#'' @ Name fn\<rparr> in
          (case (if Req fn \<noteq> Void
                 then (case reflectSchema ext (Req fn) settings st of
                         (Inl err, st) \<Rightarrow> (Inl (fail err), st)
                       | (Inr reqSchemaRef, st) \<Rightarrow>
                           (Inr (op\<lparr>RequestBody := Some reqSchemaRef\<rparr>), st))
                 else (Inr op, st)) of
             (Inl err, st) \<Rightarrow> (Inl err, st)
           | (Inr op, st) \<Rightarrow>
               (case reflectSchema ext (Res fn) settings st of
                  (Inl err, st) \<Rightarrow> (Inl (fail err), st)
                | (Inr resSchema, st) \<Rightarrow>
                    (Inr (op\<lparr>Responses := Responses op @ [(200, resSchema)],
                              Tags := Tags op @ [m]\<rparr>), st))))"

fun reflectFunctions ::
  "'w external \<Rightarrow> 'w reflectSettings \<Rightarrow> Function list \<Rightarrow> T \<Rightarrow> 'w store \<Rightarrow> (error + T) \<times> 'w store" where
  "reflectFunctions ext settings [] root st = (Inr root, st)"
| "reflectFunctions ext settings (fn # fns) root st =
     (case reflectOperation ext settings fn st of
        (Inl err, st) \<Rightarrow> (Inl err, st)
      | (Inr op, st) \<Rightarrow>
          reflectFunctions ext settings fns (AddOperation (Path fn) ''POST'' op root) st)"

definition ReflectSpec ::
  "'w external \<Rightarrow> T \<Rightarrow> Function list \<Rightarrow> 'w reflectSpecOpt option list \<Rightarrow> 'w \<Rightarrow> (error + T) \<times> 'w" where
  "ReflectSpec ext root fns opts w =
     (let settings = fold (\<lambda>opt s. case opt of None \<Rightarrow> s | Some f \<Rightarrow> f s) opts
            \<lparr>mapper = Some (\<lambda>t w. (None, w)), typeNamer = DefaultSchemaIdentifier,
             skipExtractSubSchemas = False, customizers = []\<rparr>;
          root = root\<lparr>OpenAPI := ''3.0.2''\<rparr>
      in
      case reflectFunctions ext settings fns root \<lparr>schemas = Map.empty, world = w\<rparr> of
        (Inl err, st) \<Rightarrow> (Inl err, world st)
      | (Inr doc, st) \<Rightarrow>
          (Inr (if Components root = None
                then doc\<lparr>Components := Some \<lparr>Schemas = schemas st\<rparr>\<rparr> else doc),
           world st))"

text \<open>The last function of the list that is registered at a path.\<close>

definition registered_last :: "Function list \<Rightarrow> string \<Rightarrow> Function" where
  "registered_last fns p = last (filter (\<lambda>g. Path g = p) fns)"

text \<open>
  The functions of the package's example: \<^verbatim>\<open>inc\<close> and \<^verbatim>\<open>get\<close> at \<^verbatim>\<open>/counter/inc\<close> and
  \<^verbatim>\<open>/counter/get\<close>, reflected into an empty template with the default settings.
\<close>

definition counter_functions :: "Function list" where
  "counter_functions =
     [Func (builtin ''int'') (builtin ''int'') ''/counter/inc'' [],
      Func Void (builtin ''int'') ''/counter/get'' []]"

definition empty_spec :: T where
  "empty_spec = \<lparr>OpenAPI = [], Components = None, Paths = Map.empty\<rparr>"

definition default_settings :: "nat reflectSettings" where
  "default_settings = \<lparr>mapper = Some (\<lambda>t w. (None, w)), typeNamer = DefaultSchemaIdentifier,
      skipExtractSubSchemas = False, customizers = []\<rparr>"

definition int_store :: "nat store" where
  "int_store = \<lparr>schemas = [''int'' \<mapsto> SchemaRef [] (Some (Schema [] [] [] [] None [] []))],
      world = 0\<rparr>"

lemma reflectOperation_id:
  assumes "reflectOperation ext settings fn st = (Inr op, st')"
  shows "\<exists>m. Module fn = Inr m \<and> OperationID op = m @ ''#'' @ Name fn \<and> Tags op = [m]"
  using assms
  by (auto simp: reflectOperation_def Let_def NewOperation_def
      split: sum.splits prod.splits if_splits)

lemma reflectFunctions_other_paths:
  assumes "reflectFunctions ext settings fns root st = (Inr doc, st')"
    and "p \<notin> Path ` set fns"
  shows "Paths doc p = Paths root p"
  using assms
proof (induction fns arbitrary: root st)
  case Nil
  then show ?case by simp
next
  case (Cons fn fns)
  from Cons.prems(1) obtain op st1 where o: "reflectOperation ext settings fn st = (Inr op, st1)"
    and r: "reflectFunctions ext settings fns (AddOperation (Path fn) ''POST'' op root) st1 = (Inr doc, st')"
    by (auto split: prod.splits sum.splits)
  from Cons.IH [OF r] Cons.prems(2)
  have "Paths doc p = Paths (AddOperation (Path fn) ''POST'' op root) p" by simp
  also have "... = Paths root p" using Cons.prems(2) by (simp add: AddOperation_def)
  finally show ?case .
qed

lemma reflectFunctions_last:
  assumes "reflectFunctions ext settings fns root st = (Inr doc, st')"
    and "p \<in> Path ` set fns"
  shows "\<exists>m pathItem op.
    Module (registered_last fns p) = Inr m \<and> Paths doc p = Some pathItem \<and>
    pathItem ''POST'' = Some op \<and>
    OperationID op = m @ ''#'' @ Name (registered_last fns p) \<and> Tags op = [m]"
  using assms
proof (induction fns arbitrary: root st)
  case Nil
  then show ?case by simp
next
  case (Cons fn fns)
  from Cons.prems(1) obtain op st1 where o: "reflectOperation ext settings fn st = (Inr op, st1)"
    and r: "reflectFunctions ext settings fns (AddOperation (Path fn) ''POST'' op root) st1 = (Inr doc, st')"
    by (auto split: prod.splits sum.splits)
  show ?case
  proof (cases "p \<in> Path ` set fns")
    case True
    then have "filter (\<lambda>g. Path g = p) fns \<noteq> []" by (auto simp: filter_empty_conv)
    then have "registered_last (fn # fns) p = registered_last fns p"
      by (simp add: registered_last_def)
    with Cons.IH [OF r True] show ?thesis by simp
  next
    case False
    with Cons.prems(2) have p: "Path fn = p" by auto
    from False have "filter (\<lambda>g. Path g = p) fns = []" by (auto simp: filter_empty_conv)
    with p have l: "registered_last (fn # fns) p = fn" by (simp add: registered_last_def)
    from reflectFunctions_other_paths [OF r False]
    have "Paths doc p = Paths (AddOperation (Path fn) ''POST'' op root) p" .
    then obtain pathItem where "Paths doc p = Some pathItem" "pathItem ''POST'' = Some op"
      using p by (auto simp: AddOperation_def split: option.splits)
    with reflectOperation_id [OF o] l show ?thesis by auto
  qed
qed

lemma registered_last_distinct:
  assumes "distinct (map Path fns)" and "f \<in> set fns"
  shows "registered_last fns (Path f) = f"
  using assms
proof (induction fns)
  case Nil
  then show ?case by simp
next
  case (Cons g fns)
  show ?case
  proof (cases "f \<in> set fns")
    case True
    with Cons.prems(1) have "Path g \<noteq> Path f" by force
    moreover from True have "filter (\<lambda>h. Path h = Path f) fns \<noteq> []"
      by (auto simp: filter_empty_conv)
    ultimately show ?thesis
      using Cons.IH True Cons.prems(1) by (simp add: registered_last_def)
  next
    case False
    with Cons.prems(2) have g: "g = f" by simp
    from Cons.prems(1) have "Path g \<notin> Path ` set fns" by simp
    then have "filter (\<lambda>h. Path h = Path f) fns = []"
      unfolding filter_empty_conv g by (metis imageI)
    with g show ?thesis by (simp add: registered_last_def)
  qed
qed

text \<open>
  C8. For a function whose path contains \<^verbatim>\<open>/\<close>, \<^verbatim>\<open>Module\<close> returns the path truncated at
  its last \<^verbatim>\<open>/\<close>, with every \<^verbatim>\<open>/\<close> replaced by \<^verbatim>\<open>.\<close> and one leading \<^verbatim>\<open>.\<close> removed.
  When \<^verbatim>\<open>ReflectSpec\<close> returns a document, the POST operation at the path of each function
  has the operation id \<^verbatim>\<open>Module() + "#" + Name()\<close> and the one tag \<^verbatim>\<open>Module()\<close> of the
  function registered last at that path, which is the function itself when the paths
  of the list are distinct.
\<close>

theorem operation_id_and_tag:
  "(CHR ''/'' \<in> set (Path f) \<longrightarrow> Module f = Inr (module_of_path (Path f))) \<and>
   (\<forall>doc w'. ReflectSpec ext root fns opts w = (Inr doc, w') \<and> f \<in> set fns \<longrightarrow>
      (\<exists>m pathItem op.
         Module (registered_last fns (Path f)) = Inr m \<and>
         Paths doc (Path f) = Some pathItem \<and> pathItem ''POST'' = Some op \<and>
         OperationID op = m @ ''#'' @ Name (registered_last fns (Path f)) \<and> Tags op = [m]) \<and>
      (distinct (map Path fns) \<longrightarrow> registered_last fns (Path f) = f))"
proof (intro conjI allI impI)
  assume "CHR ''/'' \<in> set (Path f)"
  then show "Module f = Inr (module_of_path (Path f))"
    by (cases f) (simp_all add: modulePath_slash)
next
  fix doc w'
  assume a: "ReflectSpec ext root fns opts w = (Inr doc, w') \<and> f \<in> set fns"
  then obtain settings d st where
    r: "reflectFunctions ext settings fns (root\<lparr>OpenAPI := ''3.0.2''\<rparr>)
          \<lparr>schemas = Map.empty, world = w\<rparr> = (Inr d, st)"
    and d: "Paths doc = Paths d"
    by (auto simp: ReflectSpec_def Let_def split: prod.splits sum.splits if_splits)
  from a have "Path f \<in> Path ` set fns" by simp
  from reflectFunctions_last [OF r this] d
  show "\<exists>m pathItem op.
         Module (registered_last fns (Path f)) = Inr m \<and>
         Paths doc (Path f) = Some pathItem \<and> pathItem ''POST'' = Some op \<and>
         OperationID op = m @ ''#'' @ Name (registered_last fns (Path f)) \<and> Tags op = [m]"
    by simp
next
  fix doc w'
  assume "ReflectSpec ext root fns opts w = (Inr doc, w') \<and> f \<in> set fns"
    and "distinct (map Path fns)"
  then show "registered_last fns (Path f) = f" by (simp add: registered_last_distinct)
qed

lemma reflect_int:
  "reflectSchema test_external (builtin ''int'')
     \<lparr>mapper = Some (\<lambda>t w. (None, w)), typeNamer = DefaultSchemaIdentifier,
      skipExtractSubSchemas = False, customizers = []\<rparr>
     \<lparr>schemas = Map.empty, world = w\<rparr> =
   (Inr (SchemaRef ''#/components/schemas/int'' None),
    \<lparr>schemas = [''int'' \<mapsto> SchemaRef [] (Some (Schema [] [] [] [] None [] []))], world = w\<rparr>)"
proof -
  have ge: "NewSchemaRefForValue test_external = flat_generator"
    by (simp add: test_external_def)
  have k: "Kind (builtin ''int'') = reflect_other" "\<not> Implements (builtin ''int'') SchemaProvider"
    "getRequiredProps (builtin ''int'') = []" "DefaultSchemaIdentifier (builtin ''int'') = ''int''"
    by (simp_all add: builtin_def Implements_def)
  have g: "flat_generator (newCustomizerFlow
        [setID (builtin ''int'') DefaultSchemaIdentifier, tryMap (Some (\<lambda>t w. (None, w))),
         useCutomType test_external, markPropertiesRequired]) (builtin ''int'')
        \<lparr>schemas = Map.empty, world = w\<rparr> =
      (Inr (SchemaRef [] (Some (Schema [] [] [] [] None [] []))),
       \<lparr>schemas = Map.empty, world = w\<rparr>)"
    by (simp add: flat_generator_def setID_def tryMap_def useCutomType_def
        markPropertiesRequired_def k Let_def)
  show ?thesis
    by (simp add: reflectSchema_def ge k g Let_def NewSchemaRef_def extractSubSchemas_def)
qed

lemma counter_facts:
  "builtin ''int'' \<noteq> Void"
  "Path (Func (builtin ''int'') (builtin ''int'') ''/counter/inc'' []) = ''/counter/inc''"
  "Path (Func Void (builtin ''int'') ''/counter/get'' []) = ''/counter/get''"
  "Name (Func (builtin ''int'') (builtin ''int'') ''/counter/inc'' []) = ''inc''"
  "Name (Func Void (builtin ''int'') ''/counter/get'' []) = ''get''"
  "Req (Func (builtin ''int'') (builtin ''int'') ''/counter/inc'' []) = builtin ''int''"
  "Res (Func (builtin ''int'') (builtin ''int'') ''/counter/inc'' []) = builtin ''int''"
  "Req (Func Void (builtin ''int'') ''/counter/get'' []) = Void"
  "Res (Func Void (builtin ''int'') ''/counter/get'' []) = builtin ''int''"
  by (simp_all add: Func_def Let_def builtin_def Void_def named_struct_def)

lemma counter_modules:
  "Module (Func (builtin ''int'') (builtin ''int'') ''/counter/inc'' []) = Inr ''counter''"
  "Module (Func Void (builtin ''int'') ''/counter/get'' []) = Inr ''counter''"
  by (simp_all add: Func_def Let_def modulePath_def ReplaceAll_def TrimPrefix_def HasPrefix_def)

lemma reflect_int_again: "reflectSchema test_external (builtin ''int'') default_settings int_store =
      (Inr (SchemaRef ''#/components/schemas/int'' None), int_store)"
  by (simp add: reflectSchema_def Let_def builtin_def NewSchemaRef_def default_settings_def int_store_def)

lemma reflect_int_first: "reflectSchema test_external (builtin ''int'') default_settings
     \<lparr>schemas = Map.empty, world = 0\<rparr> = (Inr (SchemaRef ''#/components/schemas/int'' None), int_store)"
  using reflect_int [of 0] by (simp add: default_settings_def int_store_def)

lemma reflect_inc: "\<exists>op. reflectOperation test_external default_settings
     (Func (builtin ''int'') (builtin ''int'') ''/counter/inc'' [])
     \<lparr>schemas = Map.empty, world = 0\<rparr> = (Inr op, int_store)"
  by (simp add: reflectOperation_def Let_def counter_modules counter_facts reflect_int_first reflect_int_again)

lemma reflect_get: "\<exists>op. reflectOperation test_external default_settings
     (Func Void (builtin ''int'') ''/counter/get'' []) int_store = (Inr op, int_store)"
  by (simp add: reflectOperation_def Let_def counter_modules counter_facts reflect_int_again)

lemma counter_reflected:
  "\<exists>doc. ReflectSpec test_external empty_spec counter_functions [] 0 = (Inr doc, 0)"
proof -
  from reflect_inc obtain op1 where 1: "reflectOperation test_external default_settings
     (Func (builtin ''int'') (builtin ''int'') ''/counter/inc'' [])
     \<lparr>schemas = Map.empty, world = 0\<rparr> = (Inr op1, int_store)" ..
  from reflect_get obtain op2 where 2: "reflectOperation test_external default_settings
     (Func Void (builtin ''int'') ''/counter/get'' []) int_store = (Inr op2, int_store)" ..
  have "\<exists>doc. reflectFunctions test_external default_settings counter_functions
      (empty_spec\<lparr>OpenAPI := ''3.0.2''\<rparr>) \<lparr>schemas = Map.empty, world = 0\<rparr> = (Inr doc, int_store)"
    by (simp add: counter_functions_def 1 2)
  then obtain d where "reflectFunctions test_external default_settings counter_functions
      (empty_spec\<lparr>OpenAPI := ''3.0.2''\<rparr>) \<lparr>schemas = Map.empty, world = 0\<rparr> = (Inr d, int_store)" ..
  then show ?thesis
    by (simp add: ReflectSpec_def Let_def default_settings_def [symmetric] int_store_def)
qed

theorem operation_id_and_tag_witness:
  "\<exists>doc pathItem op.
     ReflectSpec test_external empty_spec counter_functions [] 0 = (Inr doc, 0) \<and>
     Module (Func (builtin ''int'') (builtin ''int'') ''/counter/inc'' []) = Inr ''counter'' \<and>
     Paths doc ''/counter/inc'' = Some pathItem \<and> pathItem ''POST'' = Some op \<and>
     OperationID op = ''counter#inc'' \<and> Tags op = [''counter'']"
proof -
  let ?inc = "Func (builtin ''int'') (builtin ''int'') ''/counter/inc'' []"
  from counter_reflected obtain doc
    where r: "ReflectSpec test_external empty_spec counter_functions [] 0 = (Inr doc, 0)" ..
  have m: "?inc \<in> set counter_functions" and d: "distinct (map Path counter_functions)"
    by (simp_all add: counter_functions_def counter_facts)
  from operation_id_and_tag [of ?inc test_external empty_spec counter_functions "[]" 0]
  have "\<forall>doc w'. ReflectSpec test_external empty_spec counter_functions [] 0 = (Inr doc, w') \<and>
      ?inc \<in> set counter_functions \<longrightarrow>
      (\<exists>m pathItem op.
         Module (registered_last counter_functions (Path ?inc)) = Inr m \<and>
         Paths doc (Path ?inc) = Some pathItem \<and> pathItem ''POST'' = Some op \<and>
         OperationID op = m @ ''#'' @ Name (registered_last counter_functions (Path ?inc)) \<and>
         Tags op = [m]) \<and>
      (distinct (map Path counter_functions) \<longrightarrow>
         registered_last counter_functions (Path ?inc) = ?inc)"
    by (rule conjunct2)
  with r m d have l: "registered_last counter_functions (Path ?inc) = ?inc"
    and e: "\<exists>m pathItem op.
         Module (registered_last counter_functions (Path ?inc)) = Inr m \<and>
         Paths doc (Path ?inc) = Some pathItem \<and> pathItem ''POST'' = Some op \<and>
         OperationID op = m @ ''#'' @ Name (registered_last counter_functions (Path ?inc)) \<and>
         Tags op = [m]"
    by blast+
  from e obtain pathItem op where
    "Paths doc ''/counter/inc'' = Some pathItem" "pathItem ''POST'' = Some op"
    "OperationID op = ''counter#inc''" "Tags op = [''counter'']"
    unfolding l by (auto simp: counter_facts counter_modules)
  with r counter_modules(1) show ?thesis by blast
qed

section \<open>Discovery of endpoints\<close>

text \<open>
  Path segments are cased by \<^verbatim>\<open>strcase.ToKebab\<close> of the dependency
  \<^verbatim>\<open>github.com/iancoleman/strcase\<close> (\<^verbatim>\<open>go.mod\<close>: v0.3.0), which is not part of the
  package. The traversal below therefore takes the casing function as its first argument
  \<open>toKebab\<close>, and what is proved of the traversal holds for every casing function.
  For the package's own tests and for concrete examples, \<open>ToKebab\<close> renders the
  library's function: \<^verbatim>\<open>ToKebab(s)\<close> is \<^verbatim>\<open>ToScreamingDelimited(s, '-', "", false)\<close>, a
  single loop over the bytes of the trimmed string in which \<open>prev\<close> is the byte
  before the current one. Upper-case letters are lowered, a delimiter is inserted where
  the case or the letter/digit class changes, and space, underscore, hyphen and dot
  become the delimiter.
\<close>

definition isCap :: "char \<Rightarrow> bool" where
  "isCap c = (of_char CHR ''A'' \<le> (of_char c :: nat) \<and> (of_char c :: nat) \<le> of_char CHR ''Z'')"

definition isLow :: "char \<Rightarrow> bool" where
  "isLow c = (of_char CHR ''a'' \<le> (of_char c :: nat) \<and> (of_char c :: nat) \<le> of_char CHR ''z'')"

definition isNum :: "char \<Rightarrow> bool" where
  "isNum c = (of_char CHR ''0'' \<le> (of_char c :: nat) \<and> (of_char c :: nat) \<le> of_char CHR ''9'')"

definition isSpace :: "char \<Rightarrow> bool" where
  "isSpace c = (c \<in> set [CHR 0x09, CHR 0x0A, CHR 0x0B, CHR 0x0C, CHR 0x0D, CHR '' ''])"

definition TrimSpace :: "string \<Rightarrow> string" where
  "TrimSpace s = rev (dropWhile isSpace (rev (dropWhile isSpace s)))"

fun delimited :: "char \<Rightarrow> string \<Rightarrow> bool \<Rightarrow> char option \<Rightarrow> string \<Rightarrow> string" where
  "delimited delimiter ignore screaming prev [] = []"
| "delimited delimiter ignore screaming prev (c # cs) =
     (let vIsCap = isCap c;
          vIsLow = isLow c;
          v = (if vIsLow \<and> screaming then char_of (of_char c + of_char CHR ''A'' - (of_char CHR ''a'' :: nat))
               else if vIsCap \<and> \<not> screaming
               then char_of (of_char c + of_char CHR ''a'' - (of_char CHR ''A'' :: nat))
               else c);
          plain = (if (v = CHR '' '' \<or> v = CHR ''_'' \<or> v = CHR ''-'' \<or> v = CHR ''.'') \<and> v \<notin> set ignore
                   then [delimiter] else [v])
      in
      case cs of
        [] \<Rightarrow> plain @ delimited delimiter ignore screaming (Some c) cs
      | next # _ \<Rightarrow>
          let vIsNum = isNum v;
              nextIsCap = isCap next;
              nextIsLow = isLow next;
              nextIsNum = isNum next;
              prevIgnore = (ignore \<noteq> [] \<and> (case prev of None \<Rightarrow> False | Some p \<Rightarrow> p \<in> set ignore));
              prevIsCap = (case prev of None \<Rightarrow> False | Some p \<Rightarrow> isCap p)
          in
          if ((vIsCap \<and> (nextIsLow \<or> nextIsNum)) \<or> (vIsLow \<and> (nextIsCap \<or> nextIsNum)) \<or>
              (vIsNum \<and> (nextIsCap \<or> nextIsLow))) \<and> \<not> prevIgnore
          then (if vIsCap \<and> nextIsLow \<and> prevIsCap then [delimiter] else []) @ [v] @
               (if vIsLow \<or> vIsNum \<or> nextIsNum then [delimiter] else []) @
               delimited delimiter ignore screaming (Some c) cs
          else plain @ delimited delimiter ignore screaming (Some c) cs)"

definition ToScreamingDelimited :: "string \<Rightarrow> char \<Rightarrow> string \<Rightarrow> bool \<Rightarrow> string" where
  "ToScreamingDelimited s delimiter ignore screaming =
     delimited delimiter ignore screaming None (TrimSpace s)"

definition ToKebab :: "string \<Rightarrow> string" where
  "ToKebab s = ToScreamingDelimited s CHR ''-'' [] False"

text \<open>
  The values handed to \<^verbatim>\<open>Struct\<close>, as \<^verbatim>\<open>reflect\<close> shows them to the traversal: a pointer
  (nil or to a value), an interface (nil or holding a value), a struct, or anything else.
  A struct carries the method set of its type, the method set of the pointer to its type
  (each method with its name, package path and signature without the receiver), and its
  fields with their values, in declaration order. A \<^verbatim>\<open>reflect.Value\<close> is the datum
  together with its addressability: \<^verbatim>\<open>ValueOf\<close> yields a value that is not addressable,
  \<^verbatim>\<open>Elem\<close> of a pointer one that is, \<^verbatim>\<open>Elem\<close> of an interface one that is not, and a
  field is addressable exactly when its struct is. Values are finite trees; a value that
  reaches itself through pointers, on which the traversal does not return, is not a
  value of this datatype.
\<close>

datatype go_data =
    Pointer_to "go_data option"
  | Interface_of "go_data option"
  | Struct_of "go_method list" "go_method list" "(struct_field \<times> go_data) list"
  | Other_data

datatype reflect_Value = reflect_Value (CanAddr: bool) (held: go_data)

definition ValueOf :: "go_data \<Rightarrow> reflect_Value" where
  "ValueOf v = reflect_Value False v"

definition IsExportedMethod :: "go_method \<Rightarrow> bool" where
  "IsExportedMethod m = (MethodPkgPath m = [])"

definition NumIn :: "go_method \<Rightarrow> nat" where
  "NumIn m = length (In m)"

definition NumOut :: "go_method \<Rightarrow> nat" where
  "NumOut m = length (Out m)"

definition isExposableMethod :: "go_method \<Rightarrow> bool" where
  "isExposableMethod m =
     (if NumIn m < 1 \<or> NumOut m < 1 \<or> NumOut m > 2 then False
      else if \<not> Implements (In m ! 0) context_Context then False
      else if NumOut m = 2 \<and> \<not> Implements (Out m ! (NumOut m - 1)) error_interface then False
      else if NumOut m = 1 \<and> \<not> Implements (Out m ! 0) error_interface then False
      else True)"

definition createTypedFunc ::
  "string \<Rightarrow> string \<Rightarrow> go_method \<Rightarrow> go_type option \<Rightarrow> go_type option \<Rightarrow> bool \<Rightarrow> bool
    \<Rightarrow> FuncOpt list \<Rightarrow> Function" where
  "createTypedFunc path methodName m reqType resType isNullary isVoid opts =
     structFunctionDefinition methodName path m reqType resType isNullary isVoid (newSettings opts)"

definition createFunction :: "string \<Rightarrow> string \<Rightarrow> go_method \<Rightarrow> FuncOpt list \<Rightarrow> Function option" where
  "createFunction path methodName m opts =
     (if NumIn m < 1 \<or> NumOut m < 1 \<or> NumOut m > 2 then None
      else if \<not> Implements (In m ! 0) context_Context then None
      else if NumOut m = 2 \<and> \<not> Implements (Out m ! (NumOut m - 1)) error_interface then None
      else if NumIn m = 2 \<and> NumOut m = 2
        then Some (createTypedFunc path methodName m (Some (In m ! 1)) (Some (Out m ! 0)) False False opts)
      else if NumIn m = 2 \<and> NumOut m = 1
        then Some (createTypedFunc path methodName m (Some (In m ! 1)) None False True opts)
      else if NumIn m = 1 \<and> NumOut m = 2
        then Some (createTypedFunc path methodName m None (Some (Out m ! 0)) True False opts)
      else if NumIn m = 1 \<and> NumOut m = 1
        then Some (createTypedFunc path methodName m None None True True opts)
      else None)"

definition valueMethods :: "go_method list \<Rightarrow> go_method list" where
  "valueMethods ms = filter (\<lambda>m. IsExportedMethod m \<and> isExposableMethod m) ms"

fun pointerMethods :: "go_method list \<Rightarrow> go_method list \<Rightarrow> go_method list" where
  "pointerMethods [] methods = methods"
| "pointerMethods (m # ms) methods =
     (let found = (MethodName m \<in> set (map MethodName methods)) in
      if \<not> found \<and> IsExportedMethod m \<and> isExposableMethod m
      then pointerMethods ms (methods @ [m])
      else pointerMethods ms methods)"

fun getExposableMethods :: "reflect_Value \<Rightarrow> go_method list" where
  "getExposableMethods (reflect_Value a (Struct_of ms pms flds)) =
     (let methods = valueMethods ms in
      if a then pointerMethods pms methods else methods)"
| "getExposableMethods v = []"

text \<open>
  \<^verbatim>\<open>traverseStruct\<close> only ever appends to \<^verbatim>\<open>*functions\<close>; each function below returns
  what it appends, in order. \<open>registerMethods\<close> is the loop over several methods,
  \<open>registerStruct\<close> the method part of the body, \<open>traverseFields\<close> the loop over the
  fields, and \<open>derefPtr\<close> the first statement: a nil pointer ends the call, any other
  pointer is replaced by what it points to, once. \<open>getExposableMethods\<close> is only
  called on structs.
\<close>

fun registerMethods ::
  "(string \<Rightarrow> string) \<Rightarrow> string \<Rightarrow> go_method list \<Rightarrow> FuncOpt list \<Rightarrow> Function list" where
  "registerMethods toKebab path [] opts = []"
| "registerMethods toKebab path (methodInfo # methods) opts =
     (let methodPath = path @ ''/'' @ toKebab (MethodName methodInfo) in
      case createFunction methodPath (MethodName methodInfo) methodInfo opts of
        Some fn \<Rightarrow> fn # registerMethods toKebab path methods opts
      | None \<Rightarrow> registerMethods toKebab path methods opts)"

definition registerStruct ::
  "(string \<Rightarrow> string) \<Rightarrow> string \<Rightarrow> reflect_Value \<Rightarrow> FuncOpt list \<Rightarrow> Function list" where
  "registerStruct toKebab path v opts =
     (let methods = getExposableMethods v in
      if length methods = 1
      then (case createFunction path (MethodName (methods ! 0)) (methods ! 0) opts of
              Some fn \<Rightarrow> [fn]
            | None \<Rightarrow> [])
      else if length methods > 1 then registerMethods toKebab path methods opts
      else [])"

fun derefPtr :: "reflect_Value \<Rightarrow> reflect_Value option" where
  "derefPtr (reflect_Value a (Pointer_to None)) = None"
| "derefPtr (reflect_Value a (Pointer_to (Some d))) = Some (reflect_Value True d)"
| "derefPtr v = Some v"

function traverseStruct ::
    "(string \<Rightarrow> string) \<Rightarrow> string \<Rightarrow> reflect_Value \<Rightarrow> FuncOpt list \<Rightarrow> Function list"
  and traverseFields ::
    "(string \<Rightarrow> string) \<Rightarrow> string \<Rightarrow> bool \<Rightarrow> (struct_field \<times> go_data) list \<Rightarrow> FuncOpt list
      \<Rightarrow> Function list"
where
  "traverseStruct toKebab path v opts =
     (case derefPtr v of
        None \<Rightarrow> []
      | Some v \<Rightarrow>
          (case held v of
             Interface_of None \<Rightarrow> []
           | Interface_of (Some d) \<Rightarrow> traverseStruct toKebab path (reflect_Value False d) opts
           | Struct_of ms pms flds \<Rightarrow>
               registerStruct toKebab path v opts @
               traverseFields toKebab path (CanAddr v) flds opts
           | _ \<Rightarrow> []))"
| "traverseFields toKebab path a [] opts = []"
| "traverseFields toKebab path a ((fld, fieldValue) # flds) opts =
     (if \<not> IsExported fld then traverseFields toKebab path a flds opts
      else
        let fieldPath = path @ ''/'' @ toKebab (FieldName fld) in
        traverseStruct toKebab fieldPath (reflect_Value a fieldValue) opts @
        traverseFields toKebab path a flds opts)"
  by pat_completeness auto
termination
proof (relation "measure (\<lambda>x. case x of
    Inl (toKebab, path, v, opts) \<Rightarrow> 2 * size (held v) + 1
  | Inr (toKebab, path, a, flds, opts) \<Rightarrow> 2 * size_list (size_prod (\<lambda>f. 0) size) flds)")
  show "wf (measure (\<lambda>x. case x of
      Inl (toKebab, path, v, opts) \<Rightarrow> 2 * size (held v) + 1
    | Inr (toKebab, path, a, flds, opts) \<Rightarrow> 2 * size_list (size_prod (\<lambda>f. 0) size) flds))"
    by simp
next
  fix toKebab :: "string \<Rightarrow> string" and path v and opts :: "FuncOpt list" and x2 x2a x2b
  assume "derefPtr v = Some x2" "held x2 = Interface_of x2a" "x2a = Some x2b"
  then show "(Inl (toKebab, path, reflect_Value False x2b, opts), Inl (toKebab, path, v, opts))
    \<in> measure (\<lambda>x. case x of
      Inl (toKebab, path, v, opts) \<Rightarrow> 2 * size (held v) + 1
    | Inr (toKebab, path, a, flds, opts) \<Rightarrow> 2 * size_list (size_prod (\<lambda>f. 0) size) flds)"
    by (cases v rule: derefPtr.cases) auto
next
  fix toKebab :: "string \<Rightarrow> string" and path v and opts :: "FuncOpt list" and x2 x31 x32 x33
  assume "derefPtr v = Some x2" "held x2 = Struct_of x31 x32 x33"
  then show "(Inr (toKebab, path, CanAddr x2, x33, opts), Inl (toKebab, path, v, opts))
    \<in> measure (\<lambda>x. case x of
      Inl (toKebab, path, v, opts) \<Rightarrow> 2 * size (held v) + 1
    | Inr (toKebab, path, a, flds, opts) \<Rightarrow> 2 * size_list (size_prod (\<lambda>f. 0) size) flds)"
    by (cases v rule: derefPtr.cases) auto
qed auto

definition Struct ::
  "(string \<Rightarrow> string) \<Rightarrow> string \<Rightarrow> go_data \<Rightarrow> FuncOpt list \<Rightarrow> Function list" where
  "Struct toKebab basePath v opts = traverseStruct toKebab basePath (ValueOf v) opts"

subsection \<open>Values of the package's tests\<close>

text \<open>
  \<^verbatim>\<open>Application\<close> with its command and query handlers, and \<^verbatim>\<open>multimethod\<close>, from the
  tests of \<^verbatim>\<open>Struct\<close>; all their methods have pointer receivers. \<open>Calculator\<close> has
  one method with two parameters after the context, \<open>Mixed\<close> that method and a
  second one, and \<open>Ambiguous\<close> has two fields whose names differ only in how the
  words are separated.
\<close>

definition context_type :: go_type where
  "context_type = InterfaceType \<lparr>PkgPath = ''context'', TypeName = ''Context'',
     String = ''context.Context'', implements = [context_Context]\<rparr>"

definition error_type :: go_type where
  "error_type = InterfaceType \<lparr>PkgPath = [], TypeName = ''error'', String = ''error'',
     implements = [error_interface]\<rparr>"

definition func :: "string \<Rightarrow> go_type list \<Rightarrow> go_type list \<Rightarrow> go_method" where
  "func n ins outs = \<lparr>MethodName = n, MethodPkgPath = [], In = ins, Out = outs\<rparr>"

definition IncHandler :: go_data where
  "IncHandler = Struct_of []
     [func ''Handle'' [context_type, builtin ''string''] [error_type]] []"

definition CountQueryHandler :: go_data where
  "CountQueryHandler = Struct_of []
     [func ''Handle'' [context_type] [builtin ''int'', error_type]] []"

definition Commands :: go_data where
  "Commands = Struct_of [] []
     [(field ''Inc'' [] (named_struct ''IncHandler'' []), IncHandler)]"

definition Queries :: go_data where
  "Queries = Struct_of [] []
     [(field ''Count'' [] (named_struct ''CountQueryHandler'' []), CountQueryHandler)]"

definition Application :: go_data where
  "Application = Struct_of [] []
     [(field ''Commands'' [] (named_struct ''Commands'' []), Commands),
      (field ''Queries'' [] (named_struct ''Queries'' []), Queries)]"

definition multimethod :: go_data where
  "multimethod = Struct_of []
     [func ''Count'' [context_type] [builtin ''int'', error_type],
      func ''Inc'' [context_type] [error_type]]
     [(StructField ''i'' ''github.com/pbedat/expose_test'' False [] (builtin ''int''), Other_data)]"

definition Add :: go_method where
  "Add = func ''Add'' [context_type, builtin ''int'', builtin ''int''] [error_type]"

definition Reset :: go_method where
  "Reset = func ''Reset'' [context_type] [error_type]"

definition Calculator :: go_data where
  "Calculator = Struct_of [Add] [Add] []"

definition Mixed :: go_data where
  "Mixed = Struct_of [Add, Reset] [Add, Reset] []"

definition Ambiguous :: go_data where
  "Ambiguous = Struct_of [] []
     [(field ''AnyKind'' [] (named_struct ''IncHandler'' []), IncHandler),
      (field ''Any_Kind'' [] (named_struct ''CountQueryHandler'' []), CountQueryHandler)]"

subsection \<open>Shapes and segments\<close>

text \<open>
  The four supported shapes: the context alone or the context and one request, and an
  error alone or a result and an error.
\<close>

definition four_shapes :: "go_method \<Rightarrow> bool" where
  "four_shapes m =
     ((NumIn m = 1 \<or> NumIn m = 2) \<and> Implements (In m ! 0) context_Context \<and>
      (NumOut m = 1 \<and> Implements (Out m ! 0) error_interface \<or>
       NumOut m = 2 \<and> Implements (Out m ! 1) error_interface))"

text \<open>
  The segments a struct appends to its path: the cased names of its methods when it has
  several, and the cased names of its exported fields. They are \<open>clear\<close> when they are
  pairwise distinct and none contains a slash; a value is \<open>unambiguous\<close> when that holds
  at every struct the traversal visits. \<open>under path p\<close>: \<open>p\<close> is \<open>path\<close> or continues it
  with a slash.
\<close>

definition segments ::
  "(string \<Rightarrow> string) \<Rightarrow> reflect_Value \<Rightarrow> (struct_field \<times> go_data) list \<Rightarrow> string list" where
  "segments toKebab v flds =
     (if length (getExposableMethods v) > 1
      then map (\<lambda>m. toKebab (MethodName m)) (getExposableMethods v) else []) @
     map (\<lambda>fv. toKebab (FieldName (fst fv))) (filter (\<lambda>fv. IsExported (fst fv)) flds)"

definition clear :: "string list \<Rightarrow> bool" where
  "clear segs = (distinct segs \<and> list_all (\<lambda>s. CHR ''/'' \<notin> set s) segs)"

function unambiguous :: "(string \<Rightarrow> string) \<Rightarrow> reflect_Value \<Rightarrow> bool"
  and unambiguousFields :: "(string \<Rightarrow> string) \<Rightarrow> bool \<Rightarrow> (struct_field \<times> go_data) list \<Rightarrow> bool"
where
  "unambiguous toKebab v =
     (case derefPtr v of
        None \<Rightarrow> True
      | Some v \<Rightarrow>
          (case held v of
             Interface_of None \<Rightarrow> True
           | Interface_of (Some d) \<Rightarrow> unambiguous toKebab (reflect_Value False d)
           | Struct_of ms pms flds \<Rightarrow>
               clear (segments toKebab v flds) \<and> unambiguousFields toKebab (CanAddr v) flds
           | _ \<Rightarrow> True))"
| "unambiguousFields toKebab a [] = True"
| "unambiguousFields toKebab a ((fld, fieldValue) # flds) =
     (if \<not> IsExported fld then unambiguousFields toKebab a flds
      else unambiguous toKebab (reflect_Value a fieldValue) \<and> unambiguousFields toKebab a flds)"
  by pat_completeness auto
termination
proof (relation "measure (\<lambda>x. case x of
    Inl (toKebab, v) \<Rightarrow> 2 * size (held v) + 1
  | Inr (toKebab, a, flds) \<Rightarrow> 2 * size_list (size_prod (\<lambda>f. 0) size) flds)")
  show "wf (measure (\<lambda>x. case x of
      Inl (toKebab, v) \<Rightarrow> 2 * size (held v) + 1
    | Inr (toKebab, a, flds) \<Rightarrow> 2 * size_list (size_prod (\<lambda>f. 0) size) flds))"
    by simp
next
  fix toKebab :: "string \<Rightarrow> string" and v x2 x2a x2b
  assume "derefPtr v = Some x2" "held x2 = Interface_of x2a" "x2a = Some x2b"
  then show "(Inl (toKebab, reflect_Value False x2b), Inl (toKebab, v))
    \<in> measure (\<lambda>x. case x of
      Inl (toKebab, v) \<Rightarrow> 2 * size (held v) + 1
    | Inr (toKebab, a, flds) \<Rightarrow> 2 * size_list (size_prod (\<lambda>f. 0) size) flds)"
    by (cases v rule: derefPtr.cases) auto
next
  fix toKebab :: "string \<Rightarrow> string" and v x2 x31 x32 x33
  assume "derefPtr v = Some x2" "held x2 = Struct_of x31 x32 x33"
  then show "(Inr (toKebab, CanAddr x2, x33), Inl (toKebab, v))
    \<in> measure (\<lambda>x. case x of
      Inl (toKebab, v) \<Rightarrow> 2 * size (held v) + 1
    | Inr (toKebab, a, flds) \<Rightarrow> 2 * size_list (size_prod (\<lambda>f. 0) size) flds)"
    by (cases v rule: derefPtr.cases) auto
qed auto

definition under :: "string \<Rightarrow> string \<Rightarrow> bool" where
  "under path p = (p = path \<or> take (Suc (length path)) p = path @ ''/'')"

declare traverseStruct.simps [simp del] unambiguous.simps [simp del]

section \<open>Properties of discovery\<close>

text \<open>
  With at most one parameter after the context, \<^verbatim>\<open>isExposableMethod\<close> accepts exactly the
  four shapes, and \<^verbatim>\<open>createFunction\<close> builds a function for each of them.
\<close>

lemma isExposableMethod_shapes: "NumIn m \<le> 2 \<Longrightarrow> isExposableMethod m = four_shapes m"
  by (auto simp: isExposableMethod_def four_shapes_def)

lemma createFunction_shapes: "four_shapes m \<Longrightarrow> createFunction path n m opts \<noteq> None"
  by (auto simp: createFunction_def four_shapes_def)

lemma createFunction_none: "2 < NumIn m \<Longrightarrow> createFunction path n m opts = None"
  by (simp add: createFunction_def)

text \<open>
  Claim C3. A method is counted as eligible if and only if it is exported and has one of
  the four shapes, and a method of any other shape contributes neither to the count nor
  to the endpoints. \<^verbatim>\<open>isExposableMethod\<close> has no upper bound on the number of parameters:
  \<^verbatim>\<open>Add(ctx, a, b) error\<close> has none of the four shapes, is accepted and counted by
  \<^verbatim>\<open>getExposableMethods\<close>, and \<^verbatim>\<open>createFunction\<close> builds nothing for it.
\<close>

theorem three_parameters_counted:
  "\<not> four_shapes Add \<and> isExposableMethod Add \<and>
   getExposableMethods (ValueOf Calculator) = [Add] \<and>
   createFunction ''/calc'' ''Add'' Add [] = None"
  by (simp add: four_shapes_def isExposableMethod_def createFunction_def NumIn_def NumOut_def
      Add_def func_def context_type_def error_type_def Implements_def ValueOf_def Calculator_def
      valueMethods_def IsExportedMethod_def)

text \<open>
  Claim C4. With exactly one eligible method a struct registers one endpoint at its own
  path, with several one endpoint per method below it, with none nothing. \<open>Calculator\<close>
  has one counted method and registers nothing; \<open>Mixed\<close> has one method of the four
  shapes, \<^verbatim>\<open>Reset\<close>, and registers it below its path instead of at it, because \<^verbatim>\<open>Add\<close>
  is counted with it.
\<close>

theorem counted_method_displaces:
  "Struct toKebab ''/calc'' Calculator [] = [] \<and>
   map Path (Struct toKebab ''/calc'' Mixed []) = [''/calc/'' @ toKebab ''Reset'']"
  by (simp add: Struct_def ValueOf_def Calculator_def Mixed_def traverseStruct.simps
      registerStruct_def valueMethods_def IsExportedMethod_def isExposableMethod_def
      createFunction_def createTypedFunc_def NumIn_def NumOut_def Add_def Reset_def func_def
      context_type_def error_type_def Implements_def Let_def)

subsection \<open>Paths below a path\<close>

lemma under_segment:
  assumes "under (path @ ''/'' @ s) p" and "CHR ''/'' \<notin> set s"
  shows "takeWhile (\<lambda>c. c \<noteq> CHR ''/'') (drop (Suc (length path)) p) = s"
proof -
  from assms(1) consider "p = path @ ''/'' @ s"
    | "take (Suc (length (path @ ''/'' @ s))) p = (path @ ''/'' @ s) @ ''/''"
    unfolding under_def by blast
  then show ?thesis
  proof cases
    case 1
    with assms(2) show ?thesis by auto
  next
    case 2
    have "p = take (Suc (length (path @ ''/'' @ s))) p @ drop (Suc (length (path @ ''/'' @ s))) p"
      by simp
    with 2 have "p = (path @ ''/'' @ s) @ ''/'' @ drop (Suc (length (path @ ''/'' @ s))) p"
      by simp
    then obtain r where "p = path @ ''/'' @ s @ ''/'' @ r" by simp
    with assms(2) show ?thesis by (auto simp: takeWhile_tail)
  qed
qed

lemma under_separates:
  assumes "under (path @ ''/'' @ s) p" "under (path @ ''/'' @ t) p"
    and "CHR ''/'' \<notin> set s" "CHR ''/'' \<notin> set t"
  shows "s = t"
  using under_segment [OF assms(1,3)] under_segment [OF assms(2,4)] by simp

lemma under_longer: "under (path @ ''/'' @ s) p \<Longrightarrow> p \<noteq> path"
  by (auto simp: under_def)

lemma under_below:
  assumes "under (path @ ''/'' @ s) p"
  shows "under path p"
proof -
  from assms consider "p = path @ ''/'' @ s"
    | "take (Suc (length (path @ ''/'' @ s))) p = (path @ ''/'' @ s) @ ''/''"
    unfolding under_def by blast
  then show ?thesis
  proof cases
    case 1
    then show ?thesis by (simp add: under_def)
  next
    case 2
    have "take (Suc (length path)) p =
        take (Suc (length path)) (take (Suc (length (path @ ''/'' @ s))) p)"
      by (simp add: min_def)
    also have "\<dots> = path @ ''/''"
      unfolding 2 by simp
    finally show ?thesis by (simp add: under_def)
  qed
qed

lemma under_refl: "under path path"
  by (simp add: under_def)

lemma createFunction_Path: "createFunction p n m opts = Some f \<Longrightarrow> Path f = p"
  by (auto simp: createFunction_def createTypedFunc_def split: if_splits)

lemma registerMethods_paths:
  "f \<in> set (registerMethods k path ms opts) \<Longrightarrow>
     \<exists>m \<in> set ms. Path f = path @ ''/'' @ k (MethodName m)"
proof (induction ms)
  case Nil
  then show ?case by simp
next
  case (Cons m ms)
  then show ?case
    by (auto simp: Let_def dest: createFunction_Path split: option.splits)
qed

lemma registerMethods_distinct:
  "distinct (map (\<lambda>m. k (MethodName m)) ms) \<Longrightarrow>
     distinct (map Path (registerMethods k path ms opts))"
proof (induction ms)
  case Nil
  then show ?case by simp
next
  case (Cons m ms)
  have "Path g \<noteq> path @ ''/'' @ k (MethodName m)"
    if "g \<in> set (registerMethods k path ms opts)" for g
  proof -
    from registerMethods_paths [OF that] obtain m' where
      "m' \<in> set ms" "Path g = path @ ''/'' @ k (MethodName m')" by blast
    with Cons.prems show ?thesis by force
  qed
  note fresh = this
  from Cons have d: "distinct (map Path (registerMethods k path ms opts))" by simp
  show ?case
  proof (cases "createFunction (path @ ''/'' @ k (MethodName m)) (MethodName m) m opts")
    case None
    with d show ?thesis by (simp add: Let_def)
  next
    case (Some fn)
    from createFunction_Path [OF Some] fresh
    have "Path fn \<notin> Path ` set (registerMethods k path ms opts)" by force
    with Some d show ?thesis by (simp add: Let_def)
  qed
qed

lemma registerStruct_paths:
  assumes "f \<in> set (registerStruct k path v opts)"
  shows "Path f = path \<and> length (getExposableMethods v) = 1 \<or>
     1 < length (getExposableMethods v) \<and>
     (\<exists>m \<in> set (getExposableMethods v). Path f = path @ ''/'' @ k (MethodName m))"
proof -
  let ?ms = "getExposableMethods v"
  consider "length ?ms = 1" | "1 < length ?ms" | "length ?ms = 0" by linarith
  then show ?thesis
  proof cases
    case 1
    with assms have "createFunction path (MethodName (?ms ! 0)) (?ms ! 0) opts = Some f"
      by (simp add: registerStruct_def Let_def split: option.splits)
    from createFunction_Path [OF this] 1 show ?thesis by simp
  next
    case 2
    with assms have "f \<in> set (registerMethods k path ?ms opts)"
      by (simp add: registerStruct_def)
    from registerMethods_paths [OF this] 2 show ?thesis by simp
  next
    case 3
    with assms show ?thesis by (simp add: registerStruct_def)
  qed
qed

lemma registerStruct_distinct:
  assumes "1 < length (getExposableMethods v) \<Longrightarrow>
     distinct (map (\<lambda>m. k (MethodName m)) (getExposableMethods v))"
  shows "distinct (map Path (registerStruct k path v opts))"
proof -
  let ?ms = "getExposableMethods v"
  consider "length ?ms = 1" | "1 < length ?ms" | "length ?ms = 0" by linarith
  then show ?thesis
  proof cases
    case 1
    then show ?thesis by (simp add: registerStruct_def Let_def split: option.splits)
  next
    case 2
    with assms have "distinct (map Path (registerMethods k path ?ms opts))"
      by (intro registerMethods_distinct)
    with 2 show ?thesis by (simp add: registerStruct_def)
  next
    case 3
    then show ?thesis by (simp add: registerStruct_def)
  qed
qed

lemma registerStruct_under:
  assumes "f \<in> set (registerStruct k path v opts)"
  shows "under path (Path f)"
  using registerStruct_paths [OF assms] by (auto simp: under_def)

lemma traverseStruct_cases [case_names empty iface node]:
  obtains "traverseStruct k path v opts = []"
  | x d where "derefPtr v = Some x" "held x = Interface_of (Some d)"
      "traverseStruct k path v opts = traverseStruct k path (reflect_Value False d) opts"
  | x ms pms flds where "derefPtr v = Some x" "held x = Struct_of ms pms flds"
      "traverseStruct k path v opts =
         registerStruct k path x opts @ traverseFields k path (CanAddr x) flds opts"
proof (cases "derefPtr v")
  case None
  then have "traverseStruct k path v opts = []" by (simp add: traverseStruct.simps)
  then show ?thesis by (rule that(1))
next
  case (Some x)
  show ?thesis
  proof (cases "held x")
    case (Pointer_to p)
    with Some have "traverseStruct k path v opts = []" by (simp add: traverseStruct.simps)
    then show ?thesis by (rule that(1))
  next
    case (Interface_of i)
    show ?thesis
    proof (cases i)
      case None
      with Some Interface_of have "traverseStruct k path v opts = []"
        by (simp add: traverseStruct.simps)
      then show ?thesis by (rule that(1))
    next
      case (Some d)
      with \<open>derefPtr v = Some x\<close> Interface_of
      have "traverseStruct k path v opts = traverseStruct k path (reflect_Value False d) opts"
        by (subst traverseStruct.simps) simp
      with \<open>derefPtr v = Some x\<close> Interface_of Some show ?thesis by (intro that(2)) auto
    qed
  next
    case (Struct_of ms pms flds)
    with Some have "traverseStruct k path v opts =
         registerStruct k path x opts @ traverseFields k path (CanAddr x) flds opts"
      by (simp add: traverseStruct.simps)
    with Some Struct_of show ?thesis by (intro that(3))
  next
    case Other_data
    with Some have "traverseStruct k path v opts = []" by (simp add: traverseStruct.simps)
    then show ?thesis by (rule that(1))
  qed
qed

lemma traverse_under:
  "f \<in> set (traverseStruct k path v opts) \<Longrightarrow> under path (Path f)"
  "f \<in> set (traverseFields k path a flds opts) \<Longrightarrow>
     \<exists>fv \<in> set flds. IsExported (fst fv) \<and> under (path @ ''/'' @ k (FieldName (fst fv))) (Path f)"
proof (induction k path v opts and k path a flds opts rule: traverseStruct_traverseFields.induct)
  case (1 k path v opts)
  show ?case
  proof (cases k path v opts rule: traverseStruct_cases)
    case empty
    with "1.prems" show ?thesis by simp
  next
    case (iface x d)
    with "1.prems" "1.IH"(1) show ?thesis by simp
  next
    case (node x ms pms flds)
    with "1.prems" consider "f \<in> set (registerStruct k path x opts)"
      | "f \<in> set (traverseFields k path (CanAddr x) flds opts)" by auto
    then show ?thesis
    proof cases
      case 1
      then show ?thesis by (rule registerStruct_under)
    next
      case 2
      from "1.IH"(2) [OF node(1,2) 2] show ?thesis by (auto dest: under_below [simplified])
    qed
  qed
next
  case (2 k path a opts)
  then show ?case by simp
next
  case (3 k path a fld fieldValue flds opts)
  show ?case
  proof (cases "IsExported fld")
    case False
    with "3.prems" "3.IH"(1) show ?thesis by auto
  next
    case True
    with "3.prems" consider
      "f \<in> set (traverseStruct k (path @ ''/'' @ k (FieldName fld)) (reflect_Value a fieldValue) opts)"
      | "f \<in> set (traverseFields k path a flds opts)" by (auto simp: Let_def)
    then show ?thesis
    proof cases
      case 1
      with "3.IH"(2) True show ?thesis by auto
    next
      case 2
      with "3.IH"(3) True show ?thesis by auto
    qed
  qed
qed


lemma clear_append:
  "clear (xs @ ys) \<Longrightarrow> clear xs \<and> clear ys \<and> set xs \<inter> set ys = {}"
  by (auto simp: clear_def)

lemma clear_Cons: "clear (s # xs) = (s \<notin> set xs \<and> CHR ''/'' \<notin> set s \<and> clear xs)"
  by (auto simp: clear_def)

lemma clear_member: "clear xs \<Longrightarrow> s \<in> set xs \<Longrightarrow> CHR ''/'' \<notin> set s"
  by (auto simp: clear_def list_all_iff)

lemma unambiguous_node:
  assumes "derefPtr v = Some x" "held x = Struct_of ms pms flds"
  shows "unambiguous k v =
    (clear (segments k x flds) \<and> unambiguousFields k (CanAddr x) flds)"
  using assms by (simp add: unambiguous.simps)

lemma unambiguous_iface:
  assumes "derefPtr v = Some x" "held x = Interface_of (Some d)"
  shows "unambiguous k v = unambiguous k (reflect_Value False d)"
  using assms by (subst unambiguous.simps) simp

lemma traverse_distinct:
  "unambiguous k v \<Longrightarrow> distinct (map Path (traverseStruct k path v opts))"
  "unambiguousFields k a flds \<Longrightarrow>
     clear (map (\<lambda>fv. k (FieldName (fst fv))) (filter (\<lambda>fv. IsExported (fst fv)) flds)) \<Longrightarrow>
     distinct (map Path (traverseFields k path a flds opts))"
proof (induction k path v opts and k path a flds opts rule: traverseStruct_traverseFields.induct)
  case (1 k path v opts)
  show ?case
  proof (cases k path v opts rule: traverseStruct_cases)
    case empty
    then show ?thesis by simp
  next
    case (iface x d)
    from "1.prems" have "unambiguous k (reflect_Value False d)"
      by (simp add: unambiguous_iface [OF iface(1,2)])
    with "1.IH"(1) iface show ?thesis by simp
  next
    case (node x ms pms flds)
    let ?own = "if 1 < length (getExposableMethods x)
      then map (\<lambda>m. k (MethodName m)) (getExposableMethods x) else []"
    let ?sub = "map (\<lambda>fv. k (FieldName (fst fv))) (filter (\<lambda>fv. IsExported (fst fv)) flds)"
    from "1.prems" have c: "clear (?own @ ?sub)" and u: "unambiguousFields k (CanAddr x) flds"
      by (simp_all add: unambiguous_node [OF node(1,2)] segments_def)
    from clear_append [OF c] have co: "clear ?own" and cs: "clear ?sub"
      and di: "set ?own \<inter> set ?sub = {}" by simp_all
    from co have 1: "distinct (map Path (registerStruct k path x opts))"
      by (intro registerStruct_distinct) (simp add: clear_def)
    from "1.IH"(2) [OF node(1,2) u cs]
    have 2: "distinct (map Path (traverseFields k path (CanAddr x) flds opts))" .
    have 3: "Path f \<noteq> Path g"
      if f: "f \<in> set (registerStruct k path x opts)"
        and g: "g \<in> set (traverseFields k path (CanAddr x) flds opts)" for f g
    proof
      assume e: "Path f = Path g"
      from traverse_under(2) [OF g] obtain fv where fv: "fv \<in> set flds" "IsExported (fst fv)"
        and ug: "under (path @ ''/'' @ k (FieldName (fst fv))) (Path g)" by blast
      from fv have s: "k (FieldName (fst fv)) \<in> set ?sub" by force
      from registerStruct_paths [OF f] consider "Path f = path"
        | m where "1 < length (getExposableMethods x)" "m \<in> set (getExposableMethods x)"
            "Path f = path @ ''/'' @ k (MethodName m)" by blast
      then show False
      proof cases
        case 1
        with e under_longer [OF ug] show False by simp
      next
        case (2 m)
        then have o: "k (MethodName m) \<in> set ?own" by simp
        from 2(3) e have "under (path @ ''/'' @ k (MethodName m)) (Path g)"
          by (simp add: under_def)
        from under_separates [OF this ug clear_member [OF co o] clear_member [OF cs s]]
        have "k (MethodName m) = k (FieldName (fst fv))" .
        with o s di show False by auto
      qed
    qed
    from 1 2 3 show ?thesis unfolding node(3) by (auto simp: distinct_map inj_on_def)
  qed
next
  case (2 k path a opts)
  then show ?case by simp
next
  case (3 k path a fld fieldValue flds opts)
  let ?sub = "map (\<lambda>fv. k (FieldName (fst fv))) (filter (\<lambda>fv. IsExported (fst fv)) flds)"
  show ?case
  proof (cases "IsExported fld")
    case False
    with "3.prems" "3.IH"(1) show ?thesis by simp
  next
    case True
    let ?p = "path @ ''/'' @ k (FieldName fld)"
    from True "3.prems" have u1: "unambiguous k (reflect_Value a fieldValue)"
      and u2: "unambiguousFields k a flds"
      and c: "clear (k (FieldName fld) # ?sub)" by simp_all
    from c have n: "k (FieldName fld) \<notin> set ?sub" and sl: "CHR ''/'' \<notin> set (k (FieldName fld))"
      and cs: "clear ?sub" by (simp_all add: clear_Cons)
    from True have t: "\<not> \<not> IsExported fld" by simp
    from "3.IH"(2) [OF t refl u1]
    have 1: "distinct (map Path (traverseStruct k ?p (reflect_Value a fieldValue) opts))" .
    from "3.IH"(3) [OF t refl u2 cs]
    have 2: "distinct (map Path (traverseFields k path a flds opts))" .
    have 3: "Path f \<noteq> Path g"
      if f: "f \<in> set (traverseStruct k ?p (reflect_Value a fieldValue) opts)"
        and g: "g \<in> set (traverseFields k path a flds opts)" for f g
    proof
      assume e: "Path f = Path g"
      from traverse_under(2) [OF g] obtain fv where fv: "fv \<in> set flds" "IsExported (fst fv)"
        and ug: "under (path @ ''/'' @ k (FieldName (fst fv))) (Path g)" by blast
      from fv have s: "k (FieldName (fst fv)) \<in> set ?sub" by force
      from traverse_under(1) [OF f] e have "under ?p (Path g)" by simp
      from under_separates [OF this ug sl clear_member [OF cs s]] s n show False by simp
    qed
    from 1 2 3 True show ?thesis by (auto simp: Let_def distinct_map inj_on_def)
  qed
qed

text \<open>
  Two fields named \<^verbatim>\<open>AnyKind\<close> and \<^verbatim>\<open>Any_Kind\<close> are both cased \<^verbatim>\<open>any-kind\<close>, and their
  handlers are registered at the same path.
\<close>

lemma ToKebab_AnyKind: "ToKebab ''AnyKind'' = ''any-kind''"
  by code_simp

lemma ToKebab_Any_Kind: "ToKebab ''Any_Kind'' = ''any-kind''"
  by code_simp

theorem equal_paths_counterexample:
  "\<not> distinct (map Path (Struct ToKebab ''/app'' (Pointer_to (Some Ambiguous)) []))"
  by (simp add: Struct_def ValueOf_def Ambiguous_def traverseStruct.simps registerStruct_def
      IncHandler_def CountQueryHandler_def field_def IsExported_def
      valueMethods_def IsExportedMethod_def isExposableMethod_def
      createFunction_def createTypedFunc_def NumIn_def NumOut_def func_def
      context_type_def error_type_def Implements_def Let_def ToKebab_AnyKind ToKebab_Any_Kind)

text \<open>
  Claim C9, amended. The endpoints of one discovery pass have pairwise distinct paths
  whenever the root is unambiguous: at every struct the traversal visits, the cased names
  of its exported fields and, when it has several eligible methods, of those methods are
  pairwise distinct and free of slashes.
\<close>

theorem discovered_paths_distinct:
  assumes "unambiguous toKebab (ValueOf v)"
  shows "distinct (map Path (Struct toKebab basePath v opts))"
  unfolding Struct_def using assms by (rule traverse_distinct(1))

lemma ToKebab_tests:
  "ToKebab ''Commands'' = ''commands''" "ToKebab ''Queries'' = ''queries''"
  "ToKebab ''Inc'' = ''inc''" "ToKebab ''Count'' = ''count''"
  by code_simp+

theorem discovered_paths_distinct_witness:
  "unambiguous ToKebab (ValueOf (Pointer_to (Some Application))) \<and>
   distinct (map Path (Struct ToKebab ''/app'' (Pointer_to (Some Application)) [])) \<and>
   map Path (Struct ToKebab ''/app'' (Pointer_to (Some Application)) []) =
     [''/app/commands/inc'', ''/app/queries/count'']"
proof -
  have u: "unambiguous ToKebab (ValueOf (Pointer_to (Some Application)))"
    by (simp add: ValueOf_def Application_def Commands_def Queries_def IncHandler_def
        CountQueryHandler_def unambiguous.simps segments_def clear_def field_def IsExported_def
        valueMethods_def IsExportedMethod_def isExposableMethod_def NumIn_def NumOut_def
        func_def context_type_def error_type_def Implements_def Let_def ToKebab_tests)
  have p: "map Path (Struct ToKebab ''/app'' (Pointer_to (Some Application)) []) =
     [''/app/commands/inc'', ''/app/queries/count'']"
    by (simp add: Struct_def ValueOf_def Application_def Commands_def Queries_def
        IncHandler_def CountQueryHandler_def traverseStruct.simps registerStruct_def
        field_def IsExported_def valueMethods_def IsExportedMethod_def isExposableMethod_def
        createFunction_def createTypedFunc_def NumIn_def NumOut_def func_def
        context_type_def error_type_def Implements_def Let_def ToKebab_tests)
  from discovered_paths_distinct [OF u, of "''/app''" "[]"] u p show ?thesis by simp
qed

end
